theory Spec2Isabelle
  imports Main "HOL-Library.AList"
begin

section \<open>Errors, streams, requests and responses\<close>

text \<open>
  A Go \<open>error\<close> value that is not nil. \<open>Err\<close> carries the message of an error made by
  \<open>fmt.Errorf\<close> or returned by a collaborator; \<open>WithStack\<close> is the wrapper that
  \<open>errors.WithStack\<close> of github.com/pkg/errors puts around a non-nil error. A possibly-nil
  \<open>error\<close> is an \<open>error option\<close>, \<open>None\<close> being nil.
\<close>

datatype error = Err string | WithStack error

text \<open>\<open>errors.WithStack(err)\<close>: nil for a nil error, the wrapped error otherwise.\<close>

definition errors_WithStack :: "error option \<Rightarrow> error option" where
  "errors_WithStack err = (case err of None \<Rightarrow> None | Some e \<Rightarrow> Some (WithStack e))"

text \<open>
  A single-read byte stream (\<open>io.ReadCloser\<close>): the bytes not read yet, and the error the
  stream ends with (nil at a clean end of file).
\<close>

record reader =
  unread :: string
  fail :: "error option"

text \<open>
  Reading uses a stream up: \<open>spent r\<close> is the stream \<open>r\<close> once it has been read to its end.
\<close>

definition spent :: "reader \<Rightarrow> reader" where
  "spent r = r\<lparr>unread := []\<rparr>"

text \<open>
  \<open>ioutil.ReadAll(r)\<close>: everything up to the end of the stream and the stream's error, and
  the stream as the call leaves it.
\<close>

definition ReadAll :: "reader \<Rightarrow> (string \<times> error option) \<times> reader" where
  "ReadAll r = ((unread r, fail r), spent r)"

text \<open>\<open>io.NopCloser(bytes.NewBuffer(data))\<close>: a fresh stream over \<open>data\<close> that ends cleanly.\<close>

definition NewBuffer :: "string \<Rightarrow> reader" where
  "NewBuffer data = \<lparr>unread = data, fail = None\<rparr>"

text \<open>
  \<open>context.Context\<close>, as far as the transports look at it: the timeouts laid on it by
  \<open>context.WithTimeout\<close> (the innermost first, in nanoseconds) and the identifiers of the
  span it carries.
\<close>

record ctx =
  timeouts :: "int list"
  traceID :: string
  spanID :: string

text \<open>A Go \<open>map[string][]string\<close> (\<open>url.Values\<close>, \<open>http.Header\<close>) read as a value.\<close>

type_synonym strmap = "(string \<times> string list) list"

record request =
  Method :: string
  URL :: string
  Header :: strmap
  Body :: "reader option"
  Ctx :: ctx

record response =
  StatusCode :: int
  RespBody :: "reader option"

text \<open>
  What a call of \<open>RoundTrip\<close> returns: the pair \<open>(*http.Response, error)\<close>, each of which
  may be nil. A call that panics returns no pair: it is \<open>Inl\<close> of the fault.
\<close>

type_synonym outcome = "response option \<times> error option"

datatype fault = NilPointerDereference

text \<open>
  An \<open>http.RoundTripper\<close>. The request is passed by value; the state \<open>'s\<close> is whatever
  the transport keeps or changes between calls (a stub's script, the network).
\<close>

type_synonym 's RoundTripper = "request \<Rightarrow> 's \<Rightarrow> (fault + outcome) \<times> 's"

section \<open>The retry transport (transport.go)\<close>

record 's retriableTransport =
  maxRetry :: int
  rt :: "'s RoundTripper"

text \<open>
  What a run of \<open>retriableTransport.RoundTrip\<close> does, in order: reading the request body
  into memory, each delegation to the wrapped transport (with the request it passed and
  what came back), and each \<open>time.Sleep\<close> (in nanoseconds).
\<close>

datatype event = ReadBody | Call request "fault + outcome" | Sleep int

definition Millisecond :: int where
  "Millisecond = 1000000"

definition StatusInternalServerError :: int where
  "StatusInternalServerError = 500"

text \<open>
  The loop \<open>for i := 0; i < rt.maxRetry; i++\<close> from the iteration \<open>i\<close> on, followed by the
  code after the loop. \<open>prev\<close> holds the variables \<open>resp\<close> and \<open>err\<close> as the previous
  iteration left them. \<open>req\<close> is the caller's request as it stands when the iteration
  begins. The request is one object, shared with the wrapped transport, which reads the body
  it is given (an \<open>http.RoundTripper\<close> may consume and close the body and change nothing
  else): when the call returns, the request holds that stream used up.
\<close>

function for_loop ::
  "'s retriableTransport \<Rightarrow> string \<Rightarrow> request \<Rightarrow> int \<Rightarrow> outcome \<Rightarrow> 's
    \<Rightarrow> (fault + outcome) \<times> event list \<times> 's" where
  "for_loop t saved req i prev s =
    (if i < maxRetry t then
       (let req' = req\<lparr>Body := Some (NewBuffer saved)\<rparr>;
            called = rt t req' s;
            left = req'\<lparr>Body := Some (snd (ReadAll (NewBuffer saved)))\<rparr>
        in case fst called of
             Inl f \<Rightarrow> (Inl f, [Call req' (fst called)], snd called)
           | Inr (resp, err) \<Rightarrow>
               (if err = None then
                  (case resp of
                     None \<Rightarrow> (Inl NilPointerDereference, [Call req' (fst called)], snd called)
                   | Some r \<Rightarrow>
                       if StatusCode r \<ge> StatusInternalServerError then
                         (case for_loop t saved left (i + 1) (resp, err) (snd called) of
                            (res, tr, s') \<Rightarrow>
                              (res, Call req' (fst called) # Sleep (Millisecond * 100) # tr, s'))
                       else (Inr (resp, None), [Call req' (fst called)], snd called))
                else
                  (case for_loop t saved left (i + 1) (resp, err) (snd called) of
                     (res, tr, s') \<Rightarrow> (res, Call req' (fst called) # tr, s'))))
     else
       (if fst prev \<noteq> None then (Inr (fst prev, None), [], s)
        else (Inr (None, errors_WithStack (snd prev)), [], s)))"
  by pat_completeness auto

termination
  by (relation "measure (\<lambda>(t, saved, req, i, prev, s). nat (maxRetry t - i))") auto

definition RoundTrip ::
  "'s retriableTransport \<Rightarrow> request \<Rightarrow> 's \<Rightarrow> (fault + outcome) \<times> event list \<times> 's" where
  "RoundTrip t req s =
    (if maxRetry t > 0 \<and> Body req \<noteq> None then
       (case ReadAll (the (Body req)) of
          ((saved, err), left) \<Rightarrow>
            if err \<noteq> None then (Inr (None, errors_WithStack err), [ReadBody], s)
            else (case for_loop t saved (req\<lparr>Body := Some left\<rparr>) 0 (None, err) s of
                    (res, tr, s') \<Rightarrow> (res, ReadBody # tr, s')))
     else for_loop t [] req 0 (None, None) s)"

text \<open>\<open>RetriableTransport(maxRetry, rt)\<close>\<close>

definition RetriableTransport :: "int \<Rightarrow> 's RoundTripper \<Rightarrow> 's retriableTransport" where
  "RetriableTransport n r = \<lparr>maxRetry = n, rt = r\<rparr>"

declare for_loop.simps [simp del]

text \<open>The delegations of a run, in order: the request passed and what came back.\<close>

fun attempts :: "event list \<Rightarrow> (request \<times> (fault + outcome)) list" where
  "attempts [] = []"
| "attempts (Call rq out # tr) = (rq, out) # attempts tr"
| "attempts (ReadBody # tr) = attempts tr"
| "attempts (Sleep d # tr) = attempts tr"

text \<open>
  The shape of a run that has \<open>n\<close> attempts left and returns \<open>res\<close>. An attempt that panics
  ends the run with that panic. An attempt that returns an error is followed at once by the
  next attempt, if one is left. An attempt that returns a response and no error ends the
  run when the status is below 500, and the run returns that response and a nil error;
  otherwise the run sleeps 100ms and goes on to the next attempt, if one is left. An attempt
  that returns neither a response nor an error ends the run with a nil dereference. The run
  ends without a further attempt only when none is left.
\<close>

fun retry_policy :: "nat \<Rightarrow> fault + outcome \<Rightarrow> event list \<Rightarrow> bool" where
  "retry_policy n res [] = (n = 0)"
| "retry_policy n res (Call rq (Inl f) # tr) = (0 < n \<and> tr = [] \<and> res = Inl f)"
| "retry_policy n res (Call rq (Inr (resp, Some e)) # tr) = (0 < n \<and> retry_policy (n - 1) res tr)"
| "retry_policy n res (Call rq (Inr (Some r, None)) # tr) =
     (0 < n \<and>
      (if StatusCode r \<ge> 500 then
         (case tr of Sleep d # tr' \<Rightarrow> d = 100 * Millisecond \<and> retry_policy (n - 1) res tr'
                   | _ \<Rightarrow> False)
       else tr = [] \<and> res = Inr (Some r, None)))"
| "retry_policy n res (Call rq (Inr (None, None)) # tr) =
     (0 < n \<and> tr = [] \<and> res = Inl NilPointerDereference)"
| "retry_policy n res (ReadBody # tr) = False"
| "retry_policy n res (Sleep d # tr) = False"

text \<open>
  The delegations listed in a trace are the calls of the wrapped transport, made in that
  order from the state \<open>s\<close> on, each returning what the trace says, and they leave the
  state \<open>s'\<close>.
\<close>

fun performed :: "'s retriableTransport \<Rightarrow> 's \<Rightarrow> event list \<Rightarrow> 's \<Rightarrow> bool" where
  "performed t s [] s' = (s' = s)"
| "performed t s (Call rq out # tr) s' =
     (fst (rt t rq s) = out \<and> performed t (snd (rt t rq s)) tr s')"
| "performed t s (ReadBody # tr) s' = performed t s tr s'"
| "performed t s (Sleep d # tr) s' = performed t s tr s'"

section \<open>Formatting\<close>

text \<open>The verb \<open>%d\<close> of package fmt on an \<open>int\<close>: decimal digits, with a minus sign.\<close>

fun digits :: "nat \<Rightarrow> string" where
  "digits n = (if n < 10 then [''0123456789'' ! n] else digits (n div 10) @ [''0123456789'' ! (n mod 10)])"

declare digits.simps [simp del]

definition itoa :: "int \<Rightarrow> string" where
  "itoa i = (if i < 0 then CHR ''-'' # digits (nat (- i)) else digits (nat i))"

text \<open>\<open>%d\<close> on an \<open>[]int\<close>: the elements between brackets, separated by spaces.\<close>

fun spaced :: "string list \<Rightarrow> string" where
  "spaced [] = []"
| "spaced [x] = x"
| "spaced (x # y # ys) = x @ CHR '' '' # spaced (y # ys)"

definition itoas :: "int list \<Rightarrow> string" where
  "itoas xs = CHR ''['' # spaced (map itoa xs) @ '']''"

section \<open>The status-envelope codec\<close>




section \<open>Maps of string lists\<close>

text \<open>\<open>m[k]\<close>: the values under a key, none for a key the map does not hold.\<close>

definition at :: "strmap \<Rightarrow> string \<Rightarrow> string list" where
  "at m k = (case map_of m k of None \<Rightarrow> [] | Some vs \<Rightarrow> vs)"

text \<open>\<open>url.Values.Add(key, value)\<close>: \<open>v[key] = append(v[key], value)\<close>.\<close>

definition Values_Add :: "string \<Rightarrow> string \<Rightarrow> strmap \<Rightarrow> strmap" where
  "Values_Add key v m = AList.update key (at m key @ [v]) m"

definition validHeaderFieldByte :: "char \<Rightarrow> bool" where
  "validHeaderFieldByte c =
    (let n = (of_char c :: nat) in
      (48 \<le> n \<and> n \<le> 57) \<or> (65 \<le> n \<and> n \<le> 90) \<or> (97 \<le> n \<and> n \<le> 122) \<or>
      n \<in> {33, 35, 36, 37, 38, 39, 42, 43, 45, 46, 94, 95, 96, 124, 126})"

text \<open>
  The second loop of \<open>canonicalMIMEHeaderKey\<close>: a letter is made upper case at the start
  and after a dash, lower case elsewhere. \<open>canonical_byte\<close> is what the loop body makes
  of one byte.
\<close>

definition canonical_byte :: "bool \<Rightarrow> char \<Rightarrow> char" where
  "canonical_byte upper c =
    (let n = (of_char c :: nat)
     in if upper \<and> 97 \<le> n \<and> n \<le> 122 then char_of (n - 32)
        else if \<not> upper \<and> 65 \<le> n \<and> n \<le> 90 then char_of (n + 32)
        else c)"

fun canonical :: "bool \<Rightarrow> string \<Rightarrow> string" where
  "canonical upper [] = []"
| "canonical upper (c # cs) =
    (let c = canonical_byte upper c in c # canonical (c = CHR ''-'') cs)"

text \<open>
  \<open>textproto.CanonicalMIMEHeaderKey\<close>: a key with a byte that is not valid in a header
  field name (a space among them) is returned as it is.
\<close>

definition CanonicalMIMEHeaderKey :: "string \<Rightarrow> string" where
  "CanonicalMIMEHeaderKey s = (if list_all validHeaderFieldByte s then canonical True s else s)"

definition Header_Add :: "string \<Rightarrow> string \<Rightarrow> strmap \<Rightarrow> strmap" where
  "Header_Add key v h = Values_Add (CanonicalMIMEHeaderKey key) v h"

definition Header_Set :: "string \<Rightarrow> string \<Rightarrow> strmap \<Rightarrow> strmap" where
  "Header_Set key v h = AList.update (CanonicalMIMEHeaderKey key) [v] h"

definition Header_Get :: "strmap \<Rightarrow> string \<Rightarrow> string" where
  "Header_Get h key = (case at h (CanonicalMIMEHeaderKey key) of [] \<Rightarrow> [] | v # _ \<Rightarrow> v)"

section \<open>Transport wrappers\<close>

type_synonym 's TransportWrapper = "'s RoundTripper \<Rightarrow> 's RoundTripper"

definition Second :: int where
  "Second = 1000000000"

definition defaultTransprtTimeout :: int where
  "defaultTransprtTimeout = Second * 10"

definition ContentTypeKey :: string where
  "ContentTypeKey = ''Content-Type''"

definition ContentTypeJson :: string where
  "ContentTypeJson = ''application/json''"

definition StatusOK :: int where
  "StatusOK = 200"

text \<open>\<open>context.WithTimeout(parent, timeout)\<close>: the parent with one more timeout laid on it.\<close>

definition WithTimeout :: "ctx \<Rightarrow> int \<Rightarrow> ctx" where
  "WithTimeout parent timeout = parent\<lparr>timeouts := timeout # timeouts parent\<rparr>"

definition TimeoutTransport :: "int \<Rightarrow> 's TransportWrapper" where
  "TimeoutTransport timeout =
    (let timeout = (if timeout \<le> 0 then defaultTransprtTimeout else timeout)
     in (\<lambda>next httpReq. next (httpReq\<lparr>Ctx := WithTimeout (Ctx httpReq) timeout\<rparr>)))"

definition HeaderTransport :: "string \<Rightarrow> string \<Rightarrow> 's TransportWrapper" where
  "HeaderTransport key v next httpReq =
     next (httpReq\<lparr>Header := Header_Add key v (Header httpReq)\<rparr>)"

definition JsonTransport :: "'s TransportWrapper" where
  "JsonTransport next httpReq =
     next (if Header_Get (Header httpReq) ContentTypeKey = []
           then httpReq\<lparr>Header := Header_Add ContentTypeKey ContentTypeJson (Header httpReq)\<rparr>
           else httpReq)"

text \<open>
  What the logging transport writes: a record of \<open>slog.Info\<close> (the message and the
  key-value pairs) or a line of \<open>fmt.Println\<close> (here always the marker and a header).
\<close>

datatype attr = StrAttr string string | IntAttr string int

datatype entry = Info string "attr list" | Println string strmap

text \<open>The state the wrapped transports run in: what has been logged, and the network.\<close>

record 'n world =
  logged :: "entry list"
  net :: 'n

definition slog_Info :: "string \<Rightarrow> attr list \<Rightarrow> 'n world \<Rightarrow> 'n world" where
  "slog_Info msg kvs w = w\<lparr>logged := logged w @ [Info msg kvs]\<rparr>"

text \<open>
  \<open>DrainBody(src)\<close>: the bytes of the stream and a new stream over them, or the error the
  stream ended with.
\<close>

definition DrainBody :: "reader \<Rightarrow> error + string \<times> reader" where
  "DrainBody src = (case fail src of Some err \<Rightarrow> Inl err
                    | None \<Rightarrow> Inr (unread src, NewBuffer (unread src)))"

text \<open>
  \<open>LoggingTransport\<close>. The deferred \<open>slog.Info("got http resp", kvs...)\<close> runs on every way
  out, with \<open>kvs\<close> as they are then.
\<close>

definition LoggingTransport :: "bool \<Rightarrow> bool \<Rightarrow> 'n world TransportWrapper" where
  "LoggingTransport loggingReqBody loggingRespBody next httpReq w =
    (let w = w\<lparr>logged := logged w @ [Println ''======='' (Header httpReq)]\<rparr>;
         kvs = [StrAttr ''http_method'' (Method httpReq), StrAttr ''http_url'' (URL httpReq),
                StrAttr ''traceID'' (traceID (Ctx httpReq)), StrAttr ''spanID'' (spanID (Ctx httpReq))];
         isUpgrade = (Header_Get (Header httpReq) ''Connection'' = ''Upgrade'');
         drained = (if \<not> isUpgrade \<and> loggingReqBody \<and> Body httpReq \<noteq> None
                    then map_sum id Some (DrainBody (the (Body httpReq))) else Inr None)
     in case drained of
          Inl err \<Rightarrow> (Inr (None, Some err), slog_Info ''got http resp'' kvs w)
        | Inr d \<Rightarrow>
           (let kvs = (case d of None \<Rightarrow> kvs | Some (reqData, reqBody) \<Rightarrow> kvs @ [StrAttr ''req_data'' reqData]);
                httpReq = (case d of None \<Rightarrow> httpReq
                           | Some (reqData, reqBody) \<Rightarrow> httpReq\<lparr>Body := Some reqBody\<rparr>);
                w = slog_Info ''send http req'' kvs w;
                sent = next httpReq w;
                w = snd sent
            in case fst sent of
                 Inl f \<Rightarrow> (Inl f, slog_Info ''got http resp'' kvs w)
               | Inr (httpResp, err) \<Rightarrow>
                   if err \<noteq> None then (Inr (None, err), slog_Info ''got http resp'' kvs w)
                   else (case httpResp of
                      None \<Rightarrow> (Inl NilPointerDereference, slog_Info ''got http resp'' kvs w)
                    | Some r \<Rightarrow>
                       (let kvs = kvs @ [IntAttr ''http_status_code'' (StatusCode r)]
                        in if \<not> isUpgrade \<and> loggingRespBody then
                             (case RespBody r of
                                None \<Rightarrow> (Inl NilPointerDereference, slog_Info ''got http resp'' kvs w)
                              | Some src \<Rightarrow>
                                 (case DrainBody src of
                                    Inl err \<Rightarrow> (Inr (None, Some err), slog_Info ''got http resp'' kvs w)
                                  | Inr (respData, respBody) \<Rightarrow>
                                     (Inr (Some (r\<lparr>RespBody := Some respBody\<rparr>), None),
                                      slog_Info ''got http resp'' (kvs @ [StrAttr ''resp_data'' respData]) w)))
                           else (Inr (Some r, None), slog_Info ''got http resp'' kvs w)))))"

text \<open>
  \<open>TracingTransport\<close>. The instrumentation \<open>otelhttp.NewTransport(next,
  otelhttp.WithServerName(serviceName))\<close> and \<open>os.Args[0]\<close> are taken as given.
\<close>

definition TracingTransport ::
  "(string \<Rightarrow> 's TransportWrapper) \<Rightarrow> string \<Rightarrow> string \<Rightarrow> 's TransportWrapper" where
  "TracingTransport otelhttp_NewTransport args0 serviceName =
    (let serviceName = (if serviceName = [] then args0 else serviceName)
     in (\<lambda>next. let transport = otelhttp_NewTransport serviceName next
                 in (\<lambda>httpReq. transport httpReq)))"

definition StatusCodeTransport :: "int \<Rightarrow> 's TransportWrapper" where
  "StatusCodeTransport expectedStatusCode next httpReq s =
    (let sent = next httpReq s
     in case fst sent of
          Inl f \<Rightarrow> (Inl f, snd sent)
        | Inr (httpResp, err) \<Rightarrow>
            if err \<noteq> None then (Inr (None, err), snd sent)
            else (case httpResp of
               None \<Rightarrow> (Inl NilPointerDereference, snd sent)
             | Some r \<Rightarrow>
                 if StatusCode r \<noteq> expectedStatusCode
                 then (Inr (None, Some (Err (''expected statuscode:'' @ itoa expectedStatusCode
                          @ '',got:'' @ itoa (StatusCode r)))), snd sent)
                 else (Inr (Some r, None), snd sent)))"

definition StatusCodesTransport :: "int list \<Rightarrow> 's TransportWrapper" where
  "StatusCodesTransport expectedStatusCodes next httpReq s =
    (let sent = next httpReq s
     in case fst sent of
          Inl f \<Rightarrow> (Inl f, snd sent)
        | Inr (httpResp, err) \<Rightarrow>
            if err \<noteq> None then (Inr (None, err), snd sent)
            else (case httpResp of
               None \<Rightarrow> (Inl NilPointerDereference, snd sent)
             | Some r \<Rightarrow>
                 if StatusCode r \<notin> set expectedStatusCodes
                 then (Inr (None, Some (Err (''expected statuscodes:'' @ itoas expectedStatusCodes
                          @ '',got:'' @ itoa (StatusCode r)))), snd sent)
                 else (Inr (Some r, None), snd sent)))"

text \<open>
  The \<open>TransportFunc\<close> that \<open>WrapTransport\<close> and \<open>DefaultTransportWrapper\<close> return: it
  delegates, and returns no response beside an error.
\<close>

definition delegating :: "'s RoundTripper \<Rightarrow> 's RoundTripper" where
  "delegating next httpReq s =
    (let sent = next httpReq s
     in case fst sent of
          Inl f \<Rightarrow> (Inl f, snd sent)
        | Inr (resp, err) \<Rightarrow>
            if err \<noteq> None then (Inr (None, err), snd sent) else (Inr (resp, None), snd sent))"

text \<open>\<open>WrapTransport(next, wrappers...)\<close>: the loop \<open>next = wrapper(next)\<close>, then the closure.\<close>

definition WrapTransport :: "'s RoundTripper \<Rightarrow> 's TransportWrapper list \<Rightarrow> 's RoundTripper" where
  "WrapTransport next wrappers = delegating (foldl (\<lambda>next wrapper. wrapper next) next wrappers)"

section \<open>The builder\<close>

record 'v Codec =
  Decode :: "reader \<Rightarrow> 'v \<Rightarrow> error option \<times> 'v"
  Encode :: "'v \<Rightarrow> string \<times> error option"

text \<open>
  The struct \<open>builder\<close>. \<open>'m\<close> is what the fields \<open>urlValues\<close> and \<open>header\<close> hold: the
  address of a map in the store, or the map read as a value. \<open>'v\<close> are the values behind \<open>interface{}\<close>,
  \<open>'s\<close> is the state of the transports.
\<close>

record ('m, 'v, 's) builder =
  b_path :: string
  b_method :: string
  b_baseURL :: string
  b_codec :: "'v Codec"
  b_resp :: "'v option"
  b_req :: "'v option"
  b_urlValues :: 'm
  b_header :: 'm
  b_expectedStatusCodes :: "int list"
  b_loggingReq :: bool
  b_loggingResp :: bool
  b_timeout :: int
  b_tracing :: bool
  b_contentType :: string
  b_insecure :: bool
  b_transport :: "'s RoundTripper option"
  b_err :: "error option"

text \<open>
  What \<open>builder.BuildTransport\<close> takes from outside the builder: the shared transports
  \<open>Transport()\<close> and \<open>InsecureTransport()\<close>, the tracing instrumentation and \<open>os.Args[0]\<close>.
\<close>

record 's collaborators =
  Transport :: "'s RoundTripper"
  InsecureTransport :: "'s RoundTripper"
  otelhttp_NewTransport :: "string \<Rightarrow> 's TransportWrapper"
  os_Args0 :: string

text \<open>The transport that \<open>BuildTransport\<close> wraps: custom, else insecure, else the default.\<close>

definition base_transport :: "'s collaborators \<Rightarrow> ('m, 'v, 's) builder \<Rightarrow> 's RoundTripper" where
  "base_transport env b =
    (let transport = Transport env;
         transport = (if b_insecure b then InsecureTransport env else transport);
         transport = (case b_transport b of Some t \<Rightarrow> t | None \<Rightarrow> transport)
     in transport)"

definition expected_codes :: "('m, 'v, 's) builder \<Rightarrow> int list" where
  "expected_codes b =
    (let expectedStatusCodes = [StatusOK]
     in if length (b_expectedStatusCodes b) \<noteq> 0 then b_expectedStatusCodes b
        else expectedStatusCodes)"

definition BuildTransport ::
  "'n world collaborators \<Rightarrow> ('m, 'v, 'n world) builder \<Rightarrow> error + 'n world RoundTripper" where
  "BuildTransport env b =
    (case b_err b of
       Some err \<Rightarrow> Inl err
     | None \<Rightarrow>
        (let transport = base_transport env b;
             tws = [StatusCodesTransport (expected_codes b)];
             tws = (if b_contentType b = [] \<or> b_contentType b = ContentTypeJson
                    then tws @ [JsonTransport] else tws);
             tws = tws @ [LoggingTransport (b_loggingReq b) (b_loggingResp b)];
             tws = (if b_tracing b
                    then tws @ [TracingTransport (otelhttp_NewTransport env) (os_Args0 env) []]
                    else tws);
             tws = tws @ [TimeoutTransport (b_timeout b)]
         in Inr (WrapTransport transport tws)))"

section \<open>Building the request\<close>

subsection \<open>Query strings (net/url)\<close>

text \<open>
  \<open>strings.Cut(s, sep)\<close> for a separator of one byte: what stands before the first \<open>sep\<close>
  and what stands after it (nothing, when there is no \<open>sep\<close>).
\<close>

definition Cut :: "char \<Rightarrow> string \<Rightarrow> string \<times> string" where
  "Cut sep s = (takeWhile (\<lambda>c. c \<noteq> sep) s, drop 1 (dropWhile (\<lambda>c. c \<noteq> sep) s))"

text \<open>The pieces that \<open>sep\<close> cuts a string into, in order.\<close>

fun split_on :: "char \<Rightarrow> string \<Rightarrow> string list" where
  "split_on c [] = [[]]"
| "split_on c (x # xs) =
    (if x = c then [] # split_on c xs
     else (x # hd (split_on c xs)) # tl (split_on c xs))"

text \<open>\<open>ishex\<close> and \<open>unhex\<close> of net/url: the hexadecimal digits and their values.\<close>

definition ishex :: "char \<Rightarrow> bool" where
  "ishex c = (let n = (of_char c :: nat)
              in (48 \<le> n \<and> n \<le> 57) \<or> (97 \<le> n \<and> n \<le> 102) \<or> (65 \<le> n \<and> n \<le> 70))"

definition unhex :: "char \<Rightarrow> nat" where
  "unhex c = (let n = (of_char c :: nat)
              in if 48 \<le> n \<and> n \<le> 57 then n - 48
                 else if 97 \<le> n \<and> n \<le> 102 then n - 97 + 10
                 else if 65 \<le> n \<and> n \<le> 70 then n - 65 + 10
                 else 0)"

text \<open>
  \<open>url.QueryUnescape\<close>: \<open>%XX\<close> becomes the byte \<open>XX\<close> and \<open>+\<close> a space. A \<open>%\<close> that is
  not followed by two hexadecimal digits is an error: the result is \<open>None\<close>.
\<close>

fun QueryUnescape :: "string \<Rightarrow> string option" where
  "QueryUnescape [] = Some []"
| "QueryUnescape (c # cs) =
    (if c = CHR ''%'' then
       (case cs of
          h # l # rest \<Rightarrow>
            if ishex h \<and> ishex l
            then map_option ((#) (char_of (unhex h * 16 + unhex l))) (QueryUnescape rest)
            else None
        | _ \<Rightarrow> None)
     else map_option ((#) (if c = CHR ''+'' then CHR '' '' else c)) (QueryUnescape cs))"

text \<open>
  One piece of a query string as the loop of \<open>url.ParseQuery\<close> treats it. A piece that
  holds a semicolon, an empty piece, and a piece whose key or value does not unescape are
  passed over (the first and the last with an error that \<open>ParseQuery\<close> returns at its
  end); any other piece gives its key and its value, unescaped.
\<close>

definition query_pair :: "string \<Rightarrow> (string \<times> string) option" where
  "query_pair piece =
    (if CHR '';'' \<in> set piece then None
     else if piece = [] then None
     else (case Cut CHR ''='' piece of
             (key, val) \<Rightarrow>
               (case QueryUnescape key of
                  None \<Rightarrow> None
                | Some key \<Rightarrow>
                   (case QueryUnescape val of
                      None \<Rightarrow> None
                    | Some val \<Rightarrow> Some (key, val)))))"

text \<open>The pairs of a query string that \<open>url.ParseQuery\<close> takes up, in order.\<close>

definition query_pairs :: "string \<Rightarrow> (string \<times> string) list" where
  "query_pairs q = List.map_filter query_pair (split_on CHR ''&'' q)"

text \<open>The values that a list of pairs holds under a key, in order.\<close>

definition values_of :: "string \<Rightarrow> (string \<times> string) list \<Rightarrow> string list" where
  "values_of k ps = map snd (filter (\<lambda>p. fst p = k) ps)"

record url =
  Scheme :: string
  Host :: string
  Path :: string
  RawQuery :: string
  Fragment :: string

text \<open>
  \<open>URL.Query()\<close>: the values that \<open>url.ParseQuery\<close> makes of \<open>RawQuery\<close>; the error of
  \<open>ParseQuery\<close> is dropped.
\<close>

definition Query :: "url \<Rightarrow> strmap" where
  "Query u = fold (\<lambda>(key, val) m. Values_Add key val m) (query_pairs (RawQuery u)) []"

text \<open>
  \<open>url.QueryEscape\<close>: letters, digits and \<open>- _ . ~\<close> stand for themselves, a space becomes
  \<open>+\<close>, every other byte becomes \<open>%XX\<close> with upper-case hexadecimal digits.
\<close>

definition shouldEscape :: "char \<Rightarrow> bool" where
  "shouldEscape c =
    (let n = (of_char c :: nat)
     in \<not> ((97 \<le> n \<and> n \<le> 122) \<or> (65 \<le> n \<and> n \<le> 90) \<or> (48 \<le> n \<and> n \<le> 57)
           \<or> c = CHR ''-'' \<or> c = CHR ''_'' \<or> c = CHR ''.'' \<or> c = CHR ''~''))"

definition upperhex :: "nat \<Rightarrow> char" where
  "upperhex n = ''0123456789ABCDEF'' ! n"

definition QueryEscape :: "string \<Rightarrow> string" where
  "QueryEscape s =
    concat (map (\<lambda>c. if c = CHR '' '' then ''+''
                      else if shouldEscape c
                      then [CHR ''%'', upperhex (of_char c div 16), upperhex (of_char c mod 16)]
                      else [c]) s)"

text \<open>The order of Go strings: byte by byte.\<close>

fun before :: "string \<Rightarrow> string \<Rightarrow> bool" where
  "before [] ys = True"
| "before (x # xs) [] = False"
| "before (x # xs) (y # ys) =
    ((of_char x :: nat) < of_char y \<or> (x = y \<and> before xs ys))"

fun insert_key :: "string \<Rightarrow> string list \<Rightarrow> string list" where
  "insert_key k [] = [k]"
| "insert_key k (x # xs) = (if before k x then k # x # xs else x # insert_key k xs)"

definition sort_keys :: "string list \<Rightarrow> string list" where
  "sort_keys ks = foldr insert_key ks []"

fun joined :: "char \<Rightarrow> string list \<Rightarrow> string" where
  "joined c [] = []"
| "joined c [x] = x"
| "joined c (x # y # ys) = x @ c # joined c (y # ys)"

text \<open>
  \<open>Values.Encode()\<close>: the keys in sorted order, under each key its values in their order,
  every value as \<open>key=value\<close> (both escaped), joined by \<open>&\<close>.
\<close>

definition Values_Encode :: "strmap \<Rightarrow> string" where
  "Values_Encode m =
    joined CHR ''&''
      (concat (map (\<lambda>k. map (\<lambda>v. QueryEscape k @ CHR ''='' # QueryEscape v) (at m k))
                   (sort_keys (map fst m))))"

subsection \<open>BuildHTTPReq (httpx.go)\<close>

text \<open>
  What \<open>builder.BuildHTTPReq\<close> takes from the standard library besides the query strings
  above: \<open>url.Parse\<close>, \<open>URL.String\<close>, and the error with which
  \<open>http.NewRequestWithContext\<close> refuses a method or a URL, if it does.
\<close>

record stdlib =
  url_Parse :: "string \<Rightarrow> error + url"
  url_String :: "url \<Rightarrow> string"
  NewRequest_refuses :: "string \<Rightarrow> string \<Rightarrow> error option"

definition MethodGet :: string where
  "MethodGet = ''GET''"

text \<open>
  The loop \<open>for key, values := range src { for _, value := range values { dst.add(key,
  value) } }\<close>. The order in which \<open>src\<close> lists its keys is the order of the
  iteration: any order is one a Go map may take.
\<close>

definition add_all ::
  "(string \<Rightarrow> string \<Rightarrow> strmap \<Rightarrow> strmap) \<Rightarrow> strmap \<Rightarrow> strmap \<Rightarrow> strmap" where
  "add_all add src dst = fold (\<lambda>(key, vals) dst. fold (add key) vals dst) src dst"

text \<open>The local \<open>urlValues\<close> of \<open>BuildHTTPReq\<close> after its two loops.\<close>

definition final_query :: "(strmap, 'v, 's) builder \<Rightarrow> url \<Rightarrow> strmap" where
  "final_query b urlObj =
    (let urlValues = [];
         urlValues = add_all Values_Add (b_urlValues b) urlValues;
         urlValues = add_all Values_Add (Query urlObj) urlValues
     in urlValues)"

definition NewRequestWithContext ::
  "stdlib \<Rightarrow> ctx \<Rightarrow> string \<Rightarrow> string \<Rightarrow> reader option \<Rightarrow> error + request" where
  "NewRequestWithContext lib c method url body =
    (case NewRequest_refuses lib method url of
       Some err \<Rightarrow> Inl err
     | None \<Rightarrow> Inr \<lparr>Method = method, URL = url, Header = [], Body = body, Ctx = c\<rparr>)"

definition BuildHTTPReq :: "stdlib \<Rightarrow> ctx \<Rightarrow> (strmap, 'v, 's) builder \<Rightarrow> error + request" where
  "BuildHTTPReq lib c b =
    (case b_err b of
       Some err \<Rightarrow> Inl err
     | None \<Rightarrow>
        (case url_Parse lib (b_baseURL b @ b_path b) of
           Inl err \<Rightarrow> Inl err
         | Inr urlObj \<Rightarrow>
            (let urlValues = final_query b urlObj;
                 urlObj = (if length urlValues \<noteq> 0
                           then urlObj\<lparr>RawQuery := Values_Encode urlValues\<rparr> else urlObj);
                 url = url_String lib urlObj;
                 method = (if b_method b = [] then MethodGet else b_method b);
                 encoded = (case b_req b of
                              None \<Rightarrow> Inr None
                            | Some v \<Rightarrow>
                               (case Encode (b_codec b) v of
                                  (data, Some err) \<Rightarrow> Inl err
                                | (data, None) \<Rightarrow> Inr (Some (NewBuffer data))))
             in case encoded of
                  Inl err \<Rightarrow> Inl err
                | Inr body \<Rightarrow>
                   (case NewRequestWithContext lib c method url body of
                      Inl err \<Rightarrow> Inl err
                    | Inr httpReq \<Rightarrow>
                       (let headers = add_all Header_Set (b_header b) [];
                            contentType = (if b_contentType b = [] then ContentTypeJson
                                           else b_contentType b);
                            headers = (if Header_Get headers ContentTypeKey = []
                                       then Header_Set ContentTypeKey contentType headers
                                       else headers)
                        in Inr (httpReq\<lparr>Header := headers\<rparr>))))))"

section \<open>The store\<close>

text \<open>
  A \<open>[]string\<close>: the address of its backing array, its length and its capacity. The nil
  slice has capacity 0 and no array.
\<close>

record slice =
  s_arr :: nat
  s_len :: nat
  s_cap :: nat

definition nil_slice :: slice where
  "nil_slice = \<lparr>s_arr = 0, s_len = 0, s_cap = 0\<rparr>"

text \<open>
  The objects the builders live in: the backing arrays of string slices, the maps
  (\<open>url.Values\<close> and \<open>http.Header\<close>, each a list of keys with their slices), and the
  \<open>builder\<close> structs, each under its address. \<open>next_addr\<close> is the address the next
  allocation takes; \<open>growth\<close> is the capacity the runtime proposes when a slice of a
  given capacity must grow.
\<close>

record ('v, 's) store =
  arrays :: "nat \<Rightarrow> string list option"
  hmaps :: "nat \<Rightarrow> (string \<times> slice) list option"
  builders :: "nat \<Rightarrow> (nat, 'v, 's) builder option"
  next_addr :: nat
  growth :: "nat \<Rightarrow> nat"

definition array_at :: "('v, 's) store \<Rightarrow> nat \<Rightarrow> string list" where
  "array_at h a = (case arrays h a of None \<Rightarrow> [] | Some xs \<Rightarrow> xs)"

definition entries :: "('v, 's) store \<Rightarrow> nat \<Rightarrow> (string \<times> slice) list" where
  "entries h m = (case hmaps h m of None \<Rightarrow> [] | Some es \<Rightarrow> es)"

text \<open>\<open>m[key]\<close> on a map in the store: the slice under the key, the nil slice without one.\<close>

definition slice_at :: "('v, 's) store \<Rightarrow> nat \<Rightarrow> string \<Rightarrow> slice" where
  "slice_at h m key = (case map_of (entries h m) key of None \<Rightarrow> nil_slice | Some sl \<Rightarrow> sl)"

text \<open>
  \<open>append(sl, v)\<close>: written into the backing array when there is room, else into a new
  array that takes the old elements along.
\<close>

definition append :: "('v, 's) store \<Rightarrow> slice \<Rightarrow> string \<Rightarrow> ('v, 's) store \<times> slice" where
  "append h sl v =
    (if s_len sl < s_cap sl then
       (h\<lparr>arrays := (arrays h)(s_arr sl \<mapsto> (array_at h (s_arr sl))[s_len sl := v])\<rparr>,
        sl\<lparr>s_len := s_len sl + 1\<rparr>)
     else
       (let c = max (s_len sl + 1) (growth h (s_cap sl));
            a = next_addr h
        in (h\<lparr>arrays := (arrays h)(a \<mapsto> take (s_len sl) (array_at h (s_arr sl)) @ v #
                                           replicate (c - (s_len sl + 1)) []),
              next_addr := a + 1\<rparr>,
            \<lparr>s_arr = a, s_len = s_len sl + 1, s_cap = c\<rparr>)))"

text \<open>\<open>make(url.Values)\<close>, \<open>make(http.Header)\<close>: a new, empty map.\<close>

definition make_map :: "('v, 's) store \<Rightarrow> ('v, 's) store \<times> nat" where
  "make_map h = (h\<lparr>hmaps := (hmaps h)(next_addr h \<mapsto> []), next_addr := next_addr h + 1\<rparr>,
                 next_addr h)"

text \<open>\<open>url.Values.Add\<close> on the map at \<open>m\<close>: \<open>v[key] = append(v[key], value)\<close>.\<close>

definition store_Values_Add :: "nat \<Rightarrow> string \<Rightarrow> string \<Rightarrow> ('v, 's) store \<Rightarrow> ('v, 's) store" where
  "store_Values_Add m key v h =
    (let appended = append h (slice_at h m key) v;
         h = fst appended
     in h\<lparr>hmaps := (hmaps h)(m \<mapsto> AList.update key (snd appended) (entries h m))\<rparr>)"

definition store_Header_Add :: "nat \<Rightarrow> string \<Rightarrow> string \<Rightarrow> ('v, 's) store \<Rightarrow> ('v, 's) store" where
  "store_Header_Add m key v h = store_Values_Add m (CanonicalMIMEHeaderKey key) v h"

text \<open>\<open>http.Header.Set\<close> on the map at \<open>m\<close>: \<open>h[canonical key] = []string{value}\<close>.\<close>

definition store_Header_Set :: "nat \<Rightarrow> string \<Rightarrow> string \<Rightarrow> ('v, 's) store \<Rightarrow> ('v, 's) store" where
  "store_Header_Set m key v h =
    (let a = next_addr h;
         h = h\<lparr>arrays := (arrays h)(a \<mapsto> [v]), next_addr := a + 1\<rparr>
     in h\<lparr>hmaps := (hmaps h)(m \<mapsto> AList.update (CanonicalMIMEHeaderKey key)
                                      \<lparr>s_arr = a, s_len = 1, s_cap = 1\<rparr> (entries h m))\<rparr>)"

text \<open>
  The loop \<open>for key, values := range src { for _, value := range values { dst.add(key,
  value) } }\<close> from a map in the store into a map in the store. The keys are those
  \<open>src\<close> holds when the loop starts; the slice under a key is read when the key is
  reached, and each of its elements when its turn comes.
\<close>

definition copy_values ::
  "(nat \<Rightarrow> string \<Rightarrow> string \<Rightarrow> ('v, 's) store \<Rightarrow> ('v, 's) store)
    \<Rightarrow> nat \<Rightarrow> nat \<Rightarrow> ('v, 's) store \<Rightarrow> ('v, 's) store" where
  "copy_values add src dst h =
    fold (\<lambda>key h.
           (let vals = slice_at h src key
            in fold (\<lambda>i h. add dst key (array_at h (s_arr vals) ! i) h) [0..<s_len vals] h))
         (map fst (entries h src)) h"

text \<open>The same loop from a map handed in by the caller, read as a value.\<close>

definition add_values ::
  "(nat \<Rightarrow> string \<Rightarrow> string \<Rightarrow> ('v, 's) store \<Rightarrow> ('v, 's) store)
    \<Rightarrow> strmap \<Rightarrow> nat \<Rightarrow> ('v, 's) store \<Rightarrow> ('v, 's) store" where
  "add_values add src dst h = fold (\<lambda>(key, vals) h. fold (add dst key) vals h) src h"

definition builder_at :: "('v, 's) store \<Rightarrow> nat \<Rightarrow> (nat, 'v, 's) builder" where
  "builder_at h b = the (builders h b)"

definition new_builder :: "(nat, 'v, 's) builder \<Rightarrow> ('v, 's) store \<Rightarrow> ('v, 's) store \<times> nat" where
  "new_builder s h = (h\<lparr>builders := (builders h)(next_addr h \<mapsto> s), next_addr := next_addr h + 1\<rparr>,
                      next_addr h)"

text \<open>\<open>builder.clone\<close>: two new maps filled from the receiver's, and a new struct.\<close>

definition clone :: "nat \<Rightarrow> ('v, 's) store \<Rightarrow> ('v, 's) store \<times> nat" where
  "clone b h =
    (let made = make_map h;
         urlValues = snd made;
         h = copy_values store_Values_Add (b_urlValues (builder_at h b)) urlValues (fst made);
         made = make_map h;
         header = snd made;
         h = copy_values store_Header_Add (b_header (builder_at h b)) header (fst made);
         b = builder_at h b
     in new_builder
          \<lparr>b_path = b_path b, b_method = b_method b, b_baseURL = b_baseURL b,
           b_codec = b_codec b, b_resp = b_resp b, b_req = b_req b,
           b_urlValues = urlValues, b_header = header,
           b_expectedStatusCodes = b_expectedStatusCodes b,
           b_loggingReq = b_loggingReq b, b_loggingResp = b_loggingResp b,
           b_timeout = b_timeout b, b_tracing = b_tracing b,
           b_contentType = b_contentType b, b_insecure = b_insecure b,
           b_transport = b_transport b, b_err = b_err b\<rparr> h)"

text \<open>\<open>New()\<close>, with the default codec taken as given.\<close>

definition New :: "'v Codec \<Rightarrow> ('v, 's) store \<Rightarrow> ('v, 's) store \<times> nat" where
  "New defaultCodec h =
    (let made = make_map h;
         urlValues = snd made;
         made = make_map (fst made);
         header = snd made
     in new_builder
          \<lparr>b_path = [], b_method = [], b_baseURL = [],
           b_codec = defaultCodec, b_resp = None, b_req = None,
           b_urlValues = urlValues, b_header = header,
           b_expectedStatusCodes = [StatusOK],
           b_loggingReq = True, b_loggingResp = True,
           b_timeout = defaultTransprtTimeout, b_tracing = True,
           b_contentType = ContentTypeJson, b_insecure = False,
           b_transport = None, b_err = None\<rparr> (fst made))"

text \<open>
  What every chaining method starts with: \<open>newBuilder := b.clone()\<close>, and the clone is
  returned as it is when it carries an error. Otherwise the method goes on to change
  the clone.
\<close>

definition chained ::
  "(nat \<Rightarrow> ('v, 's) store \<Rightarrow> ('v, 's) store) \<Rightarrow> nat \<Rightarrow> ('v, 's) store \<Rightarrow> ('v, 's) store \<times> nat" where
  "chained change b h =
    (let cloned = clone b h;
         newBuilder = snd cloned;
         h = fst cloned
     in if b_err (builder_at h newBuilder) \<noteq> None then (h, newBuilder)
        else (change newBuilder h, newBuilder))"

text \<open>An assignment to fields of the struct at \<open>b\<close>.\<close>

definition assign ::
  "((nat, 'v, 's) builder \<Rightarrow> (nat, 'v, 's) builder) \<Rightarrow> nat \<Rightarrow> ('v, 's) store \<Rightarrow> ('v, 's) store" where
  "assign f b h = h\<lparr>builders := (builders h)(b \<mapsto> f (builder_at h b))\<rparr>"

definition builder_Method :: "string \<Rightarrow> string \<Rightarrow> nat \<Rightarrow> ('v, 's) store \<Rightarrow> ('v, 's) store \<times> nat" where
  "builder_Method method path = chained (assign (\<lambda>s. s\<lparr>b_method := method, b_path := path\<rparr>))"

definition builder_Get :: "string \<Rightarrow> nat \<Rightarrow> ('v, 's) store \<Rightarrow> ('v, 's) store \<times> nat" where
  "builder_Get path = chained (assign (\<lambda>s. s\<lparr>b_method := ''GET'', b_path := path\<rparr>))"

definition builder_Head :: "string \<Rightarrow> nat \<Rightarrow> ('v, 's) store \<Rightarrow> ('v, 's) store \<times> nat" where
  "builder_Head path = chained (assign (\<lambda>s. s\<lparr>b_method := ''HEAD'', b_path := path\<rparr>))"

definition builder_Post :: "string \<Rightarrow> nat \<Rightarrow> ('v, 's) store \<Rightarrow> ('v, 's) store \<times> nat" where
  "builder_Post path = chained (assign (\<lambda>s. s\<lparr>b_method := ''POST'', b_path := path\<rparr>))"

definition builder_Put :: "string \<Rightarrow> nat \<Rightarrow> ('v, 's) store \<Rightarrow> ('v, 's) store \<times> nat" where
  "builder_Put path = chained (assign (\<lambda>s. s\<lparr>b_method := ''PUT'', b_path := path\<rparr>))"

definition builder_Patch :: "string \<Rightarrow> nat \<Rightarrow> ('v, 's) store \<Rightarrow> ('v, 's) store \<times> nat" where
  "builder_Patch path = chained (assign (\<lambda>s. s\<lparr>b_method := ''PATCH'', b_path := path\<rparr>))"

definition builder_Delete :: "string \<Rightarrow> nat \<Rightarrow> ('v, 's) store \<Rightarrow> ('v, 's) store \<times> nat" where
  "builder_Delete path = chained (assign (\<lambda>s. s\<lparr>b_method := ''DELETE'', b_path := path\<rparr>))"

definition builder_Connect :: "string \<Rightarrow> nat \<Rightarrow> ('v, 's) store \<Rightarrow> ('v, 's) store \<times> nat" where
  "builder_Connect path = chained (assign (\<lambda>s. s\<lparr>b_method := ''CONNECT'', b_path := path\<rparr>))"

definition builder_Options :: "string \<Rightarrow> nat \<Rightarrow> ('v, 's) store \<Rightarrow> ('v, 's) store \<times> nat" where
  "builder_Options path = chained (assign (\<lambda>s. s\<lparr>b_method := ''OPTIONS'', b_path := path\<rparr>))"

definition builder_Trace :: "string \<Rightarrow> nat \<Rightarrow> ('v, 's) store \<Rightarrow> ('v, 's) store \<times> nat" where
  "builder_Trace path = chained (assign (\<lambda>s. s\<lparr>b_method := ''TRACE'', b_path := path\<rparr>))"

definition builder_BaseURL :: "string \<Rightarrow> nat \<Rightarrow> ('v, 's) store \<Rightarrow> ('v, 's) store \<times> nat" where
  "builder_BaseURL baseURL = chained (assign (\<lambda>s. s\<lparr>b_baseURL := baseURL\<rparr>))"

definition builder_WithQueryString ::
  "string \<Rightarrow> string \<Rightarrow> nat \<Rightarrow> ('v, 's) store \<Rightarrow> ('v, 's) store \<times> nat" where
  "builder_WithQueryString key v =
     chained (\<lambda>newBuilder h. store_Values_Add (b_urlValues (builder_at h newBuilder)) key v h)"

text \<open>
  \<open>WithQueryStringObj\<close>. What \<open>query.Values(obj)\<close> of go-querystring returns is taken as
  given: the values and the error.
\<close>

definition builder_WithQueryStringObj ::
  "strmap \<times> error option \<Rightarrow> nat \<Rightarrow> ('v, 's) store \<Rightarrow> ('v, 's) store \<times> nat" where
  "builder_WithQueryStringObj converted =
     chained (\<lambda>newBuilder h.
       (let urlValues = fst converted;
            err = snd converted;
            h = assign (\<lambda>s. s\<lparr>b_err := err\<rparr>) newBuilder h
        in add_values store_Values_Add urlValues (b_urlValues (builder_at h newBuilder)) h))"

definition builder_WithURLValues :: "strmap \<Rightarrow> nat \<Rightarrow> ('v, 's) store \<Rightarrow> ('v, 's) store \<times> nat" where
  "builder_WithURLValues urlValues =
     chained (\<lambda>newBuilder h.
       add_values store_Values_Add urlValues (b_urlValues (builder_at h newBuilder)) h)"

definition builder_WithCodec :: "'v Codec \<Rightarrow> nat \<Rightarrow> ('v, 's) store \<Rightarrow> ('v, 's) store \<times> nat" where
  "builder_WithCodec codec = chained (assign (\<lambda>s. s\<lparr>b_codec := codec\<rparr>))"

definition builder_WithHeader ::
  "string \<Rightarrow> string \<Rightarrow> nat \<Rightarrow> ('v, 's) store \<Rightarrow> ('v, 's) store \<times> nat" where
  "builder_WithHeader key v =
     chained (\<lambda>newBuilder h. store_Header_Add (b_header (builder_at h newBuilder)) key v h)"

text \<open>\<open>BasicAuth\<close>, with \<open>base64.StdEncoding.EncodeToString\<close> taken as given.\<close>

definition BasicAuth :: "(string \<Rightarrow> string) \<Rightarrow> string \<Rightarrow> string \<Rightarrow> string" where
  "BasicAuth encodeToString username password =
    (let auth = username @ '':'' @ password in encodeToString auth)"

definition builder_WithBasicAuth ::
  "(string \<Rightarrow> string) \<Rightarrow> string \<Rightarrow> string \<Rightarrow> nat \<Rightarrow> ('v, 's) store \<Rightarrow> ('v, 's) store \<times> nat" where
  "builder_WithBasicAuth encodeToString username password =
     chained (\<lambda>newBuilder h.
       store_Header_Set (b_header (builder_at h newBuilder)) ''Authorization''
         (''Basic '' @ BasicAuth encodeToString username password) h)"

definition builder_WithHeaders :: "strmap \<Rightarrow> nat \<Rightarrow> ('v, 's) store \<Rightarrow> ('v, 's) store \<times> nat" where
  "builder_WithHeaders headers =
     chained (\<lambda>newBuilder h.
       add_values store_Header_Add headers (b_header (builder_at h newBuilder)) h)"

definition builder_WithReq :: "'v option \<Rightarrow> nat \<Rightarrow> ('v, 's) store \<Rightarrow> ('v, 's) store \<times> nat" where
  "builder_WithReq req = chained (assign (\<lambda>s. s\<lparr>b_req := req\<rparr>))"

definition builder_WithResp :: "'v option \<Rightarrow> nat \<Rightarrow> ('v, 's) store \<Rightarrow> ('v, 's) store \<times> nat" where
  "builder_WithResp resp = chained (assign (\<lambda>s. s\<lparr>b_resp := resp\<rparr>))"

definition builder_ExpectedStatusCodes ::
  "int list \<Rightarrow> nat \<Rightarrow> ('v, 's) store \<Rightarrow> ('v, 's) store \<times> nat" where
  "builder_ExpectedStatusCodes expectedStatusCodes =
     chained (assign (\<lambda>s. s\<lparr>b_expectedStatusCodes := expectedStatusCodes\<rparr>))"

definition builder_Logging :: "bool \<Rightarrow> bool \<Rightarrow> nat \<Rightarrow> ('v, 's) store \<Rightarrow> ('v, 's) store \<times> nat" where
  "builder_Logging loggingReq loggingResp =
     chained (assign (\<lambda>s. s\<lparr>b_loggingReq := loggingReq, b_loggingResp := loggingResp\<rparr>))"

definition builder_Timeout :: "int \<Rightarrow> nat \<Rightarrow> ('v, 's) store \<Rightarrow> ('v, 's) store \<times> nat" where
  "builder_Timeout timeout = chained (assign (\<lambda>s. s\<lparr>b_timeout := timeout\<rparr>))"

definition builder_Tracing :: "bool \<Rightarrow> nat \<Rightarrow> ('v, 's) store \<Rightarrow> ('v, 's) store \<times> nat" where
  "builder_Tracing tracing = chained (assign (\<lambda>s. s\<lparr>b_tracing := tracing\<rparr>))"

definition builder_ContentType :: "string \<Rightarrow> nat \<Rightarrow> ('v, 's) store \<Rightarrow> ('v, 's) store \<times> nat" where
  "builder_ContentType contentType = chained (assign (\<lambda>s. s\<lparr>b_contentType := contentType\<rparr>))"

definition builder_Insecure :: "bool \<Rightarrow> nat \<Rightarrow> ('v, 's) store \<Rightarrow> ('v, 's) store \<times> nat" where
  "builder_Insecure insecure = chained (assign (\<lambda>s. s\<lparr>b_insecure := insecure\<rparr>))"

definition builder_WithTransport ::
  "'s RoundTripper option \<Rightarrow> nat \<Rightarrow> ('v, 's) store \<Rightarrow> ('v, 's) store \<times> nat" where
  "builder_WithTransport transport = chained (assign (\<lambda>s. s\<lparr>b_transport := transport\<rparr>))"

text \<open>A call of a chaining method of the interface \<open>Builder\<close>, with its arguments.\<close>

datatype ('v, 's) call =
    Call_Get string
  | Call_Method string string
  | Call_BaseURL string
  | Call_Head string
  | Call_Post string
  | Call_Put string
  | Call_Patch string
  | Call_Delete string
  | Call_Connect string
  | Call_Options string
  | Call_Trace string
  | Call_WithQueryString string string
  | Call_WithURLValues strmap
  | Call_WithQueryStringObj "strmap \<times> error option"
  | Call_WithCodec "'v Codec"
  | Call_WithHeader string string
  | Call_WithBasicAuth "string \<Rightarrow> string" string string
  | Call_WithHeaders strmap
  | Call_WithReq "'v option"
  | Call_WithResp "'v option"
  | Call_ExpectedStatusCodes "int list"
  | Call_Logging bool bool
  | Call_Timeout int
  | Call_Tracing bool
  | Call_ContentType string
  | Call_Insecure bool
  | Call_WithTransport "'s RoundTripper option"

fun chain :: "('v, 's) call \<Rightarrow> nat \<Rightarrow> ('v, 's) store \<Rightarrow> ('v, 's) store \<times> nat" where
  "chain (Call_Get path) = builder_Get path"
| "chain (Call_Method method path) = builder_Method method path"
| "chain (Call_BaseURL baseURL) = builder_BaseURL baseURL"
| "chain (Call_Head path) = builder_Head path"
| "chain (Call_Post path) = builder_Post path"
| "chain (Call_Put path) = builder_Put path"
| "chain (Call_Patch path) = builder_Patch path"
| "chain (Call_Delete path) = builder_Delete path"
| "chain (Call_Connect path) = builder_Connect path"
| "chain (Call_Options path) = builder_Options path"
| "chain (Call_Trace path) = builder_Trace path"
| "chain (Call_WithQueryString key v) = builder_WithQueryString key v"
| "chain (Call_WithURLValues urlValues) = builder_WithURLValues urlValues"
| "chain (Call_WithQueryStringObj converted) = builder_WithQueryStringObj converted"
| "chain (Call_WithCodec codec) = builder_WithCodec codec"
| "chain (Call_WithHeader key v) = builder_WithHeader key v"
| "chain (Call_WithBasicAuth enc username password) = builder_WithBasicAuth enc username password"
| "chain (Call_WithHeaders headers) = builder_WithHeaders headers"
| "chain (Call_WithReq req) = builder_WithReq req"
| "chain (Call_WithResp resp) = builder_WithResp resp"
| "chain (Call_ExpectedStatusCodes codes) = builder_ExpectedStatusCodes codes"
| "chain (Call_Logging loggingReq loggingResp) = builder_Logging loggingReq loggingResp"
| "chain (Call_Timeout timeout) = builder_Timeout timeout"
| "chain (Call_Tracing tracing) = builder_Tracing tracing"
| "chain (Call_ContentType contentType) = builder_ContentType contentType"
| "chain (Call_Insecure insecure) = builder_Insecure insecure"
| "chain (Call_WithTransport transport) = builder_WithTransport transport"

text \<open>The elements of a slice, and a map of the store read as a value.\<close>

definition read_slice :: "('v, 's) store \<Rightarrow> slice \<Rightarrow> string list" where
  "read_slice h sl = take (s_len sl) (array_at h (s_arr sl))"

definition read_map :: "('v, 's) store \<Rightarrow> nat \<Rightarrow> strmap" where
  "read_map h m = map (\<lambda>(key, sl). (key, read_slice h sl)) (entries h m)"

text \<open>What can be observed of the builder at \<open>b\<close>: its fields, with the maps read.\<close>

definition snapshot :: "('v, 's) store \<Rightarrow> nat \<Rightarrow> (strmap, 'v, 's) builder" where
  "snapshot h b =
    (let s = builder_at h b
     in \<lparr>b_path = b_path s, b_method = b_method s, b_baseURL = b_baseURL s,
         b_codec = b_codec s, b_resp = b_resp s, b_req = b_req s,
         b_urlValues = read_map h (b_urlValues s), b_header = read_map h (b_header s),
         b_expectedStatusCodes = b_expectedStatusCodes s,
         b_loggingReq = b_loggingReq s, b_loggingResp = b_loggingResp s,
         b_timeout = b_timeout s, b_tracing = b_tracing s,
         b_contentType = b_contentType s, b_insecure = b_insecure s,
         b_transport = b_transport s, b_err = b_err s\<rparr>)"

text \<open>
  The mutable state behind the query and header of the builder at \<open>b\<close>: its two maps,
  the slices they hold, and the backing arrays of those slices.
\<close>

definition map_addrs :: "('v, 's) store \<Rightarrow> nat \<Rightarrow> nat list" where
  "map_addrs h b = [b_urlValues (builder_at h b), b_header (builder_at h b)]"

definition slices :: "('v, 's) store \<Rightarrow> nat \<Rightarrow> slice list" where
  "slices h b = concat (map (\<lambda>m. map snd (entries h m)) (map_addrs h b))"

definition array_addrs :: "('v, 's) store \<Rightarrow> nat \<Rightarrow> nat list" where
  "array_addrs h b = map s_arr (filter (\<lambda>sl. 0 < s_cap sl) (slices h b))"

text \<open>
  The builder at \<open>b\<close> is one the store has allocated: the struct, its maps and the arrays
  of its slices lie below the next free address, and no slice is longer than its capacity.
\<close>

definition allocated :: "('v, 's) store \<Rightarrow> nat \<Rightarrow> bool" where
  "allocated h b =
    (b < next_addr h \<and> builders h b \<noteq> None \<and>
     list_all (\<lambda>m. m < next_addr h) (map_addrs h b) \<and>
     list_all (\<lambda>sl. s_len sl \<le> s_cap sl) (slices h b) \<and>
     list_all (\<lambda>a. a < next_addr h) (array_addrs h b))"

section \<open>Frames of the store\<close>

text \<open>
  Everything the store \<open>h0\<close> holds below the address \<open>n\<close> is in \<open>h\<close> as it was, and \<open>h\<close>
  allocates from \<open>n\<close> or above.
\<close>

definition unchanged_below :: "nat \<Rightarrow> ('v, 's) store \<Rightarrow> ('v, 's) store \<Rightarrow> bool" where
  "unchanged_below n h0 h =
    (n \<le> next_addr h \<and>
     (\<forall>a<n. arrays h a = arrays h0 a \<and> hmaps h a = hmaps h0 a \<and> builders h a = builders h0 a))"

text \<open>A slice, and a map, whose storage was allocated at \<open>n\<close> or above.\<close>

definition fresh_slice :: "nat \<Rightarrow> ('v, 's) store \<Rightarrow> slice \<Rightarrow> bool" where
  "fresh_slice n h sl =
    (s_len sl \<le> s_cap sl \<and> (0 < s_cap sl \<longrightarrow> n \<le> s_arr sl \<and> s_arr sl < next_addr h))"

definition fresh_map :: "nat \<Rightarrow> ('v, 's) store \<Rightarrow> nat \<Rightarrow> bool" where
  "fresh_map n h m =
    (n \<le> m \<and> m < next_addr h \<and> list_all (fresh_slice n h) (map snd (entries h m)))"

text \<open>The builder at \<open>b\<close> and all its storage were allocated at \<open>n\<close> or above.\<close>

definition built :: "nat \<Rightarrow> ('v, 's) store \<Rightarrow> ('v, 's) store \<Rightarrow> nat \<Rightarrow> bool" where
  "built n h0 h b =
    (unchanged_below n h0 h \<and> n \<le> b \<and> b < next_addr h \<and> builders h b \<noteq> None \<and>
     fresh_map n h (b_urlValues (builder_at h b)) \<and> fresh_map n h (b_header (builder_at h b)))"

text \<open>
  The state of a chaining method at work on its clone: nothing below \<open>n\<close> has changed,
  and the maps \<open>um\<close> and \<open>hm\<close> are the clone's own. Every step on the clone's maps keeps it.
\<close>

definition at_work :: "nat \<Rightarrow> ('v, 's) store \<Rightarrow> nat \<Rightarrow> nat \<Rightarrow> ('v, 's) store \<Rightarrow> bool" where
  "at_work n h0 um hm h = (unchanged_below n h0 h \<and> fresh_map n h um \<and> fresh_map n h hm)"

text \<open>
  While a method changes its clone \<open>b\<close>: the clone's maps stay its own, no struct is
  touched, and the store only grows.
\<close>

definition working ::
  "nat \<Rightarrow> ('v, 's) store \<Rightarrow> ('v, 's) store \<Rightarrow> nat \<Rightarrow> ('v, 's) store \<Rightarrow> bool" where
  "working n h0 h b h' =
    (at_work n h0 (b_urlValues (builder_at h b)) (b_header (builder_at h b)) h' \<and>
     builders h' = builders h \<and> next_addr h \<le> next_addr h')"

section \<open>Test doubles and example values\<close>

text \<open>
  A transport stub: it answers from a script, one entry per call, and records every
  request it is given.
\<close>

definition stub :: "(outcome list \<times> request list) RoundTripper" where
  "stub req s =
    (case fst s of
       [] \<Rightarrow> (Inr (None, Some (Err ''stub: no answer left'')), (fst s, snd s @ [req]))
     | out # rest \<Rightarrow> (Inr out, (rest, snd s @ [req])))"

definition background :: ctx where
  "background = \<lparr>timeouts = [], traceID = [], spanID = []\<rparr>"

definition payload_req :: request where
  "payload_req = \<lparr>Method = ''POST'', URL = ''http://example.test/'', Header = [],
     Body = Some (NewBuffer ''payload''), Ctx = background\<rparr>"

definition get_req :: request where
  "get_req = \<lparr>Method = ''GET'', URL = ''http://example.test/'', Header = [],
     Body = None, Ctx = background\<rparr>"

definition status :: "int \<Rightarrow> outcome" where
  "status code = (Some \<lparr>StatusCode = code, RespBody = None\<rparr>, None)"

definition refused :: outcome where
  "refused = (None, Some (Err ''connection refused''))"


definition layer :: "string \<Rightarrow> (outcome list \<times> request list) TransportWrapper" where
  "layer name = HeaderTransport ''X-Layer'' name"

definition on_net :: "'n RoundTripper \<Rightarrow> 'n world RoundTripper" where
  "on_net t req w = (case t req (net w) of (out, n) \<Rightarrow> (out, w\<lparr>net := n\<rparr>))"

definition no_codec :: "string Codec" where
  "no_codec = \<lparr>Decode = (\<lambda>r v. (None, unread r)), Encode = (\<lambda>v. (v, None))\<rparr>"

definition untraced_builder :: "(strmap, string, (outcome list \<times> request list) world) builder" where
  "untraced_builder =
    \<lparr>b_path = [], b_method = [], b_baseURL = [], b_codec = no_codec, b_resp = None,
     b_req = None, b_urlValues = [], b_header = [], b_expectedStatusCodes = [StatusOK],
     b_loggingReq = True, b_loggingResp = True, b_timeout = defaultTransprtTimeout,
     b_tracing = False, b_contentType = ContentTypeJson, b_insecure = False,
     b_transport = Some (on_net stub), b_err = None\<rparr>"

definition no_collaborators :: "(outcome list \<times> request list) world collaborators" where
  "no_collaborators = \<lparr>Transport = on_net stub, InsecureTransport = on_net stub,
     otelhttp_NewTransport = (\<lambda>name next. next), os_Args0 = ''httpx.test''\<rparr>"

definition not_found :: outcome where
  "not_found = (Some \<lparr>StatusCode = 404, RespBody = Some (NewBuffer ''no such page'')\<rparr>, None)"

text \<open>
  A stand-in for \<open>url.Parse\<close> and \<open>URL.String\<close> on URLs without a fragment: the query
  string is what follows the first \<open>?\<close>, and all that precedes it is kept as it is.
\<close>

definition plain_urls :: stdlib where
  "plain_urls =
    \<lparr>url_Parse = (\<lambda>s. Inr \<lparr>Scheme = [], Host = [], Path = fst (Cut CHR ''?'' s),
        RawQuery = snd (Cut CHR ''?'' s), Fragment = []\<rparr>),
     url_String = (\<lambda>u. Path u @ (if RawQuery u = [] then [] else CHR ''?'' # RawQuery u)),
     NewRequest_refuses = (\<lambda>m u. None)\<rparr>"

definition login_builder :: "(strmap, string, unit) builder" where
  "login_builder =
    \<lparr>b_path = ''https://www.abcd123.top/api/v1/login?q1=a&q2=b'', b_method = ''GET'',
     b_baseURL = [], b_codec = no_codec, b_resp = None,
     b_req = None, b_urlValues = [(''q3'', [''c'']), (''q1'', [''z''])],
     b_header = [(''X-Token'', [''one'', ''two''])], b_expectedStatusCodes = [StatusOK],
     b_loggingReq = True, b_loggingResp = True, b_timeout = defaultTransprtTimeout,
     b_tracing = True, b_contentType = ContentTypeJson, b_insecure = False,
     b_transport = None, b_err = None\<rparr>"

definition rejected_pair_builder :: "(strmap, string, unit) builder" where
  "rejected_pair_builder =
    login_builder\<lparr>b_baseURL := ''http://example.test'', b_path := ''/items?b=%zz&c=3'',
      b_urlValues := [(''a'', [''1''])], b_header := []\<rparr>"

definition blank_type_builder :: "(strmap, string, unit) builder" where
  "blank_type_builder = login_builder\<lparr>b_header := [(''Content-Type'', [''text/plain'', ''''])]\<rparr>"

definition xml_type_builder :: "(strmap, string, unit) builder" where
  "xml_type_builder = blank_type_builder\<lparr>b_contentType := ''text/xml''\<rparr>"

definition send_through ::
  "error + 's RoundTripper \<Rightarrow> request \<Rightarrow> 's \<Rightarrow> error + (fault + outcome) \<times> 's" where
  "send_through made req s = (case made of Inl err \<Rightarrow> Inl err | Inr t \<Rightarrow> Inr (t req s))"

definition token_builder :: "(nat, string, unit) builder" where
  "token_builder =
    \<lparr>b_path = ''/login'', b_method = ''GET'', b_baseURL = [], b_codec = no_codec, b_resp = None,
     b_req = None, b_urlValues = 0, b_header = 1, b_expectedStatusCodes = [StatusOK],
     b_loggingReq = True, b_loggingResp = True, b_timeout = defaultTransprtTimeout,
     b_tracing = True, b_contentType = ContentTypeJson, b_insecure = False,
     b_transport = None, b_err = None\<rparr>"

definition token_store :: "(string, unit) store" where
  "token_store =
    \<lparr>arrays = [3 \<mapsto> [''one'']],
     hmaps = [0 \<mapsto> [], 1 \<mapsto> [(''X-Token'', \<lparr>s_arr = 3, s_len = 1, s_cap = 1\<rparr>)]],
     builders = [2 \<mapsto> token_builder],
     next_addr = 4, growth = (\<lambda>c. 2 * c)\<rparr>"

definition token_made :: "(string, unit) store" where
  "token_made =
    \<lparr>arrays = [3 \<mapsto> [''one'']],
     hmaps = [0 \<mapsto> [], 1 \<mapsto> [(''X-Token'', \<lparr>s_arr = 3, s_len = 1, s_cap = 1\<rparr>)],
              4 \<mapsto> [], 5 \<mapsto> []],
     builders = [2 \<mapsto> token_builder],
     next_addr = 6, growth = (\<lambda>c. 2 * c)\<rparr>"

definition token_copied :: "(string, unit) store" where
  "token_copied =
    \<lparr>arrays = [3 \<mapsto> [''one''], 6 \<mapsto> [''one'']],
     hmaps = [0 \<mapsto> [], 1 \<mapsto> [(''X-Token'', \<lparr>s_arr = 3, s_len = 1, s_cap = 1\<rparr>)],
              4 \<mapsto> [], 5 \<mapsto> [(''X-Token'', \<lparr>s_arr = 6, s_len = 1, s_cap = 1\<rparr>)]],
     builders = [2 \<mapsto> token_builder],
     next_addr = 7, growth = (\<lambda>c. 2 * c)\<rparr>"

definition token_cloned :: "(string, unit) store" where
  "token_cloned =
    \<lparr>arrays = [3 \<mapsto> [''one''], 6 \<mapsto> [''one'']],
     hmaps = [0 \<mapsto> [], 1 \<mapsto> [(''X-Token'', \<lparr>s_arr = 3, s_len = 1, s_cap = 1\<rparr>)],
              4 \<mapsto> [], 5 \<mapsto> [(''X-Token'', \<lparr>s_arr = 6, s_len = 1, s_cap = 1\<rparr>)]],
     builders = [2 \<mapsto> token_builder, 7 \<mapsto> token_builder\<lparr>b_urlValues := 4, b_header := 5\<rparr>],
     next_addr = 8, growth = (\<lambda>c. 2 * c)\<rparr>"

definition token_after :: "(string, unit) store" where
  "token_after =
    \<lparr>arrays = [3 \<mapsto> [''one''], 6 \<mapsto> [''one''], 8 \<mapsto> [''one'', ''two'']],
     hmaps = [0 \<mapsto> [], 1 \<mapsto> [(''X-Token'', \<lparr>s_arr = 3, s_len = 1, s_cap = 1\<rparr>)],
              4 \<mapsto> [], 5 \<mapsto> [(''X-Token'', \<lparr>s_arr = 8, s_len = 2, s_cap = 2\<rparr>)]],
     builders = [2 \<mapsto> token_builder, 7 \<mapsto> token_builder\<lparr>b_urlValues := 4, b_header := 5\<rparr>],
     next_addr = 9, growth = (\<lambda>c. 2 * c)\<rparr>"

section \<open>Proofs: the retry transport\<close>

lemma for_loop_exit: "\<not> i < maxRetry t \<Longrightarrow> for_loop t saved req i prev s =
   (if fst prev \<noteq> None then (Inr (fst prev, None), [], s)
        else (Inr (None, errors_WithStack (snd prev)), [], s))"
  by (subst for_loop.simps) simp

lemma for_loop_fault:
  "i < maxRetry t \<Longrightarrow> rt t (req\<lparr>Body := Some (NewBuffer saved)\<rparr>) s = (Inl f, s1) \<Longrightarrow>
    for_loop t saved req i prev s =
      (Inl f, [Call (req\<lparr>Body := Some (NewBuffer saved)\<rparr>) (Inl f)], s1)"
  by (subst for_loop.simps) (simp add: Let_def)

lemma for_loop_nil:
  "i < maxRetry t \<Longrightarrow> rt t (req\<lparr>Body := Some (NewBuffer saved)\<rparr>) s = (Inr (None, None), s1) \<Longrightarrow>
    for_loop t saved req i prev s =
      (Inl NilPointerDereference,
       [Call (req\<lparr>Body := Some (NewBuffer saved)\<rparr>) (Inr (None, None))], s1)"
  by (subst for_loop.simps) (simp add: Let_def)

lemma for_loop_return:
  "i < maxRetry t \<Longrightarrow> rt t (req\<lparr>Body := Some (NewBuffer saved)\<rparr>) s = (Inr (Some r, None), s1) \<Longrightarrow>
    StatusCode r < 500 \<Longrightarrow>
    for_loop t saved req i prev s =
      (Inr (Some r, None),
       [Call (req\<lparr>Body := Some (NewBuffer saved)\<rparr>) (Inr (Some r, None))], s1)"
  by (subst for_loop.simps) (simp add: Let_def StatusInternalServerError_def)

lemma for_loop_5xx:
  "i < maxRetry t \<Longrightarrow> rt t (req\<lparr>Body := Some (NewBuffer saved)\<rparr>) s = (Inr (Some r, None), s1) \<Longrightarrow>
    500 \<le> StatusCode r \<Longrightarrow>
    for_loop t saved (req\<lparr>Body := Some (snd (ReadAll (NewBuffer saved)))\<rparr>) (i + 1) (Some r, None) s1 = (res, tr, s') \<Longrightarrow>
    for_loop t saved req i prev s =
      (res, Call (req\<lparr>Body := Some (NewBuffer saved)\<rparr>) (Inr (Some r, None))
            # Sleep (Millisecond * 100) # tr, s')"
  by (subst for_loop.simps) (simp add: Let_def StatusInternalServerError_def)

lemma for_loop_error:
  "i < maxRetry t \<Longrightarrow> rt t (req\<lparr>Body := Some (NewBuffer saved)\<rparr>) s = (Inr (resp, Some e), s1) \<Longrightarrow>
    for_loop t saved (req\<lparr>Body := Some (snd (ReadAll (NewBuffer saved)))\<rparr>) (i + 1) (resp, Some e) s1 = (res, tr, s') \<Longrightarrow>
    for_loop t saved req i prev s =
      (res, Call (req\<lparr>Body := Some (NewBuffer saved)\<rparr>) (Inr (resp, Some e)) # tr, s')"
  by (subst for_loop.simps) (simp add: Let_def)

text \<open>
  Induction over the iterations that are left: a property of the run from iteration \<open>i\<close> on
  follows from the five ways one iteration can go.
\<close>

lemma for_loop_cases [consumes 1, case_names exit fault nil return retry_5xx retry_error]:
  assumes run: "for_loop t saved req i prev s = (res, tr, s')"
    and exit: "\<And>req i prev s. \<not> i < maxRetry t \<Longrightarrow>
        P req i prev s (if fst prev \<noteq> None then Inr (fst prev, None)
           else Inr (None, errors_WithStack (snd prev))) [] s"
    and fault: "\<And>req i prev s f s1. i < maxRetry t \<Longrightarrow>
        rt t (req\<lparr>Body := Some (NewBuffer saved)\<rparr>) s = (Inl f, s1) \<Longrightarrow>
        P req i prev s (Inl f) [Call (req\<lparr>Body := Some (NewBuffer saved)\<rparr>) (Inl f)] s1"
    and nil: "\<And>req i prev s s1. i < maxRetry t \<Longrightarrow>
        rt t (req\<lparr>Body := Some (NewBuffer saved)\<rparr>) s = (Inr (None, None), s1) \<Longrightarrow>
        P req i prev s (Inl NilPointerDereference)
          [Call (req\<lparr>Body := Some (NewBuffer saved)\<rparr>) (Inr (None, None))] s1"
    and return: "\<And>req i prev s r s1. i < maxRetry t \<Longrightarrow>
        rt t (req\<lparr>Body := Some (NewBuffer saved)\<rparr>) s = (Inr (Some r, None), s1) \<Longrightarrow>
        StatusCode r < 500 \<Longrightarrow>
        P req i prev s (Inr (Some r, None))
          [Call (req\<lparr>Body := Some (NewBuffer saved)\<rparr>) (Inr (Some r, None))] s1"
    and retry_5xx: "\<And>req i prev s r s1 res tr s'. i < maxRetry t \<Longrightarrow>
        rt t (req\<lparr>Body := Some (NewBuffer saved)\<rparr>) s = (Inr (Some r, None), s1) \<Longrightarrow>
        500 \<le> StatusCode r \<Longrightarrow>
        P (req\<lparr>Body := Some (snd (ReadAll (NewBuffer saved)))\<rparr>) (i + 1) (Some r, None) s1 res tr s' \<Longrightarrow>
        P req i prev s res (Call (req\<lparr>Body := Some (NewBuffer saved)\<rparr>) (Inr (Some r, None))
            # Sleep (Millisecond * 100) # tr) s'"
    and retry_error: "\<And>req i prev s resp e s1 res tr s'. i < maxRetry t \<Longrightarrow>
        rt t (req\<lparr>Body := Some (NewBuffer saved)\<rparr>) s = (Inr (resp, Some e), s1) \<Longrightarrow>
        P (req\<lparr>Body := Some (snd (ReadAll (NewBuffer saved)))\<rparr>) (i + 1) (resp, Some e) s1 res tr s' \<Longrightarrow>
        P req i prev s res (Call (req\<lparr>Body := Some (NewBuffer saved)\<rparr>) (Inr (resp, Some e)) # tr) s'"
  shows "P req i prev s res tr s'"
proof -
  have "for_loop t saved req i prev s = (res, tr, s') \<Longrightarrow> P req i prev s res tr s'"
    for req i prev s res tr s'
  proof (induction "nat (maxRetry t - i)" arbitrary: i req prev s res tr s')
    case 0
    then have ni: "\<not> i < maxRetry t" by simp
    from 0(2) have "res = (if fst prev \<noteq> None then Inr (fst prev, None)
           else Inr (None, errors_WithStack (snd prev))) \<and> tr = [] \<and> s' = s"
      by (auto simp: for_loop_exit[OF ni] split: if_splits)
    with exit[OF ni, where req=req and prev=prev and s=s] show ?case by simp
  next
    case (Suc n)
    then have lt: "i < maxRetry t" and n: "n = nat (maxRetry t - (i + 1))" by auto
    let ?req = "req\<lparr>Body := Some (NewBuffer saved)\<rparr>"
    let ?left = "req\<lparr>Body := Some (snd (ReadAll (NewBuffer saved)))\<rparr>"
    obtain out s1 where called: "rt t ?req s = (out, s1)" by (cases "rt t ?req s")
    show ?case
    proof (cases out)
      case (Inl f)
      from called Inl have c: "rt t ?req s = (Inl f, s1)" by simp
      from fault[OF lt c, where prev=prev] Suc.prems show ?thesis by (auto simp: for_loop_fault[OF lt c])
    next
      case (Inr pair)
      obtain resp err where pair: "pair = (resp, err)" by (cases pair)
      show ?thesis
      proof (cases err)
        case (Some e)
        from called Inr pair Some have c: "rt t ?req s = (Inr (resp, Some e), s1)" by simp
        obtain res1 tr1 s1' where rec: "for_loop t saved ?left (i + 1) (resp, Some e) s1 = (res1, tr1, s1')"
          by (cases "for_loop t saved ?left (i + 1) (resp, Some e) s1")
        from Suc.hyps(1)[OF n rec]
        have "P ?left (i + 1) (resp, Some e) s1 res1 tr1 s1'" .
        from retry_error[OF lt c this, where prev=prev] Suc.prems show ?thesis
          by (auto simp: for_loop_error[OF lt c rec])
      next
        case None
        show ?thesis
        proof (cases resp)
          case None': None
          from called Inr pair None None' have c: "rt t ?req s = (Inr (None, None), s1)" by simp
          from nil[OF lt c, where prev=prev] Suc.prems show ?thesis by (auto simp: for_loop_nil[OF lt c])
        next
          case (Some r)
          from called Inr pair None Some have c: "rt t ?req s = (Inr (Some r, None), s1)" by simp
          show ?thesis
          proof (cases "StatusCode r < 500")
            case True
            from return[OF lt c True, where prev=prev] Suc.prems show ?thesis
              by (auto simp: for_loop_return[OF lt c True])
          next
            case False
            then have ge: "500 \<le> StatusCode r" by simp
            obtain res1 tr1 s1' where rec: "for_loop t saved ?left (i + 1) (Some r, None) s1 = (res1, tr1, s1')"
              by (cases "for_loop t saved ?left (i + 1) (Some r, None) s1")
            from Suc.hyps(1)[OF n rec]
            have "P ?left (i + 1) (Some r, None) s1 res1 tr1 s1'" .
            from retry_5xx[OF lt c ge this, where prev=prev] Suc.prems show ?thesis
              by (auto simp: for_loop_5xx[OF lt c ge rec])
          qed
        qed
      qed
    qed
  qed
  from this[OF run] show ?thesis .
qed

lemma for_loop_attempts_le:
  "for_loop t saved req i prev s = (res, tr, s') \<Longrightarrow> length (attempts tr) \<le> nat (maxRetry t - i)"
  by (induction rule: for_loop_cases) auto

lemma for_loop_policy:
  "for_loop t saved req i prev s = (res, tr, s') \<Longrightarrow> retry_policy (nat (maxRetry t - i)) res tr"
proof (induction rule: for_loop_cases)
  case (retry_5xx req i prev s r s1 res tr s')
  then have "nat (maxRetry t - i) - 1 = nat (maxRetry t - (i + 1))" by simp
  with retry_5xx show ?case by simp
next
  case (retry_error req i prev s resp e s1 res tr s')
  then have "nat (maxRetry t - i) - 1 = nat (maxRetry t - (i + 1))" by simp
  with retry_error show ?case by simp
qed auto

lemma for_loop_performed:
  "for_loop t saved req i prev s = (res, tr, s') \<Longrightarrow> performed t s tr s'"
  by (induction rule: for_loop_cases) auto

lemma for_loop_exhausted:
  "for_loop t saved req i prev s = (res, tr, s') \<Longrightarrow>
    length (attempts tr) = nat (maxRetry t - i) \<longrightarrow>
      (\<forall>rq0 rq r e. last ((rq0, Inr prev) # attempts tr) = (rq, Inr (Some r, e)) \<longrightarrow> res = Inr (Some r, None)) \<and>
      (\<forall>rq0 rq e. last ((rq0, Inr prev) # attempts tr) = (rq, Inr (None, Some e)) \<longrightarrow> res = Inr (None, Some (WithStack e)))"
proof (induction rule: for_loop_cases)
  case (exit req i prev s)
  then show ?case by (auto simp: errors_WithStack_def)
next
  case (retry_5xx req i prev s r s1 res tr s')
  then show ?case by (auto split: if_splits)
next
  case (retry_error req i prev s resp e s1 res tr s')
  then show ?case by (auto split: if_splits)
qed auto

lemma for_loop_bodies:
  "for_loop t saved req i prev s = (res, tr, s') \<Longrightarrow>
    ReadBody \<notin> set tr \<and> (\<forall>p \<in> set (attempts tr). Body (fst p) = Some (NewBuffer saved))"
  by (induction rule: for_loop_cases) auto

text \<open>
  C10. With \<open>maxRetry \<le> 0\<close> the retry transport makes no attempt at all (it neither reads
  the body nor calls the wrapped transport) and returns a nil response with a nil error.
\<close>

theorem RoundTrip_no_attempt:
  "maxRetry t \<le> 0 \<Longrightarrow> RoundTrip t req s = (Inr (None, None), [], s)"
  by (simp add: RoundTrip_def for_loop_exit errors_WithStack_def)

text \<open>
  C1, as the code has it. The delegations of a run are calls of the wrapped transport, one
  after the other, and there are at most \<open>maxRetry\<close> of them. A transport-level error is
  not propagated at once: while attempts are left, an attempt that ends in an error is
  followed directly by the next attempt, with no delay. A response with status \<open>\<ge> 500\<close>
  and no error is followed by a sleep of 100ms and, while attempts are left, by the next
  attempt. A response with a status below 500 and no error ends the run, and the run
  returns that response with a nil error. The only run without attempts for
  \<open>maxRetry > 0\<close> is the one whose body cannot be read; it returns the error of the read.
\<close>

theorem RoundTrip_retry_policy:
  assumes "RoundTrip t req s = (res, tr, s')"
  shows "performed t s tr s' \<and> length (attempts tr) \<le> nat (maxRetry t) \<and>
    ((0 < maxRetry t \<and> Body req \<noteq> None \<and> snd (fst (ReadAll (the (Body req)))) \<noteq> None
        \<and> tr = [ReadBody]
        \<and> res = Inr (None, errors_WithStack (snd (fst (ReadAll (the (Body req)))))))
     \<or> retry_policy (nat (maxRetry t)) res (removeAll ReadBody tr))"
proof (cases "maxRetry t > 0 \<and> Body req \<noteq> None")
  case False
  with assms have run: "for_loop t [] req 0 (None, None) s = (res, tr, s')"
    by (auto simp: RoundTrip_def)
  from for_loop_policy[OF run] for_loop_bodies[OF run] for_loop_performed[OF run]
    for_loop_attempts_le[OF run]
  show ?thesis by simp
next
  case True
  obtain saved err left where rd: "ReadAll (the (Body req)) = ((saved, err), left)"
    by (cases "ReadAll (the (Body req))") auto
  show ?thesis
  proof (cases err)
    case (Some e)
    with True rd assms show ?thesis by (auto simp: RoundTrip_def)
  next
    case None
    obtain res0 tr0 s0 where
      run: "for_loop t saved (req\<lparr>Body := Some left\<rparr>) 0 (None, None) s = (res0, tr0, s0)"
      by (cases "for_loop t saved (req\<lparr>Body := Some left\<rparr>) 0 (None, None) s")
    with True rd None assms have tr: "tr = ReadBody # tr0" "res = res0" "s' = s0"
      by (auto simp: RoundTrip_def)
    from for_loop_policy[OF run] for_loop_bodies[OF run] for_loop_performed[OF run]
      for_loop_attempts_le[OF run] tr
    show ?thesis by simp
  qed
qed

theorem RoundTrip_retry_policy_witness:
  "RoundTrip (RetriableTransport 3 stub) payload_req ([refused, status 503, status 200], []) =
     (Inr (status 200),
      [ReadBody, Call payload_req (Inr refused), Call payload_req (Inr (status 503)),
       Sleep 100000000, Call payload_req (Inr (status 200))],
      ([], [payload_req, payload_req, payload_req]))
   \<and> retry_policy 3 (Inr (status 200))
       [Call payload_req (Inr refused), Call payload_req (Inr (status 503)),
        Sleep 100000000, Call payload_req (Inr (status 200))]
   \<and> performed (RetriableTransport 3 stub) ([refused, status 503, status 200], [])
       [ReadBody, Call payload_req (Inr refused), Call payload_req (Inr (status 503)),
        Sleep 100000000, Call payload_req (Inr (status 200))]
       ([], [payload_req, payload_req, payload_req])"
proof -
  have run: "RoundTrip (RetriableTransport 3 stub) payload_req ([refused, status 503, status 200], []) =
     (Inr (status 200),
      [ReadBody, Call payload_req (Inr refused), Call payload_req (Inr (status 503)),
       Sleep 100000000, Call payload_req (Inr (status 200))],
      ([], [payload_req, payload_req, payload_req]))"
    by (simp add: RoundTrip_def RetriableTransport_def for_loop.simps stub_def payload_req_def
        ReadAll_def spent_def NewBuffer_def status_def refused_def StatusInternalServerError_def
        Millisecond_def Let_def)
  from RoundTrip_retry_policy[OF run] show ?thesis
    using run by (simp add: RetriableTransport_def)
qed

text \<open>
  C1 as stated fails: the stub refuses the first attempt and answers 200 to the second.
  The error of the first attempt is not returned; a second attempt is made, with no sleep
  in between, and its response is the result.
\<close>

theorem RoundTrip_error_is_retried:
  "RoundTrip (RetriableTransport 3 stub) get_req ([refused, status 200], []) =
     (Inr (status 200),
      [Call (get_req\<lparr>Body := Some (NewBuffer [])\<rparr>) (Inr refused),
       Call (get_req\<lparr>Body := Some (NewBuffer [])\<rparr>) (Inr (status 200))],
      ([], [get_req\<lparr>Body := Some (NewBuffer [])\<rparr>, get_req\<lparr>Body := Some (NewBuffer [])\<rparr>]))"
  by (simp add: RoundTrip_def RetriableTransport_def for_loop.simps stub_def get_req_def
        ReadAll_def spent_def NewBuffer_def status_def refused_def StatusInternalServerError_def
        Millisecond_def Let_def)

text \<open>
  C6. When all \<open>maxRetry\<close> attempts have been made: if the last attempt produced a
  response (whatever its status, and whatever error came with it), that response is
  returned with a nil error; if it produced only an error, that error is returned (wrapped
  by \<open>errors.WithStack\<close>).
\<close>

theorem RoundTrip_exhausted:
  assumes "RoundTrip t req s = (res, tr, s')" and "0 < maxRetry t"
    and "int (length (attempts tr)) = maxRetry t"
  shows "(\<forall>rq r e. last (attempts tr) = (rq, Inr (Some r, e)) \<longrightarrow> res = Inr (Some r, None)) \<and>
      (\<forall>rq e. last (attempts tr) = (rq, Inr (None, Some e)) \<longrightarrow> res = Inr (None, Some (WithStack e)))"
proof -
  have key: "for_loop t saved rq0 0 (None, None) s = (res, tr0, s') \<Longrightarrow> attempts tr0 = attempts tr
      \<Longrightarrow> ?thesis" for saved tr0 rq0
  proof -
    assume run: "for_loop t saved rq0 0 (None, None) s = (res, tr0, s')" and eq: "attempts tr0 = attempts tr"
    from assms(2,3) eq have len: "length (attempts tr0) = nat (maxRetry t - 0)" by simp
    with assms(2) have ne: "attempts tr0 \<noteq> []" by auto
    from for_loop_exhausted[OF run] len ne eq show ?thesis by simp
  qed
  show ?thesis
  proof (cases "maxRetry t > 0 \<and> Body req \<noteq> None")
    case False
    with assms(1) have "for_loop t [] req 0 (None, None) s = (res, tr, s')"
      by (auto simp: RoundTrip_def)
    then show ?thesis by (rule key) simp
  next
    case True
    obtain saved err left where rd: "ReadAll (the (Body req)) = ((saved, err), left)"
      by (cases "ReadAll (the (Body req))") auto
    show ?thesis
    proof (cases err)
      case (Some e)
      with True rd assms(1) have "tr = [ReadBody]" by (auto simp: RoundTrip_def)
      with assms(2,3) show ?thesis by simp
    next
      case None
      obtain res0 tr0 s0 where
        run: "for_loop t saved (req\<lparr>Body := Some left\<rparr>) 0 (None, None) s = (res0, tr0, s0)"
        by (cases "for_loop t saved (req\<lparr>Body := Some left\<rparr>) 0 (None, None) s")
      with True rd None assms(1) have "tr = ReadBody # tr0" "res0 = res" "s0 = s'"
        by (auto simp: RoundTrip_def)
      with run show ?thesis by (intro key[of saved _ tr0]) simp_all
    qed
  qed
qed

theorem RoundTrip_exhausted_witness:
  "RoundTrip (RetriableTransport 2 stub) payload_req ([status 503, status 502], []) =
     (Inr (status 502),
      [ReadBody, Call payload_req (Inr (status 503)), Sleep 100000000,
       Call payload_req (Inr (status 502)), Sleep 100000000],
      ([], [payload_req, payload_req]))
   \<and> RoundTrip (RetriableTransport 2 stub) payload_req ([status 503, refused], []) =
     (Inr (None, Some (WithStack (Err ''connection refused''))),
      [ReadBody, Call payload_req (Inr (status 503)), Sleep 100000000,
       Call payload_req (Inr refused)],
      ([], [payload_req, payload_req]))"
proof -
  have run1: "RoundTrip (RetriableTransport 2 stub) payload_req ([status 503, status 502], []) =
     (Inr (status 502),
      [ReadBody, Call payload_req (Inr (status 503)), Sleep 100000000,
       Call payload_req (Inr (status 502)), Sleep 100000000],
      ([], [payload_req, payload_req]))"
    by (simp add: RoundTrip_def RetriableTransport_def for_loop.simps stub_def payload_req_def
        ReadAll_def spent_def NewBuffer_def status_def refused_def StatusInternalServerError_def
        Millisecond_def Let_def)
  have run2: "RoundTrip (RetriableTransport 2 stub) payload_req ([status 503, refused], []) =
     (Inr (None, Some (WithStack (Err ''connection refused''))),
      [ReadBody, Call payload_req (Inr (status 503)), Sleep 100000000,
       Call payload_req (Inr refused)],
      ([], [payload_req, payload_req]))"
    by (simp add: RoundTrip_def RetriableTransport_def for_loop.simps stub_def payload_req_def
        ReadAll_def spent_def NewBuffer_def status_def refused_def StatusInternalServerError_def
        Millisecond_def Let_def errors_WithStack_def)
  from RoundTrip_exhausted[OF run1] RoundTrip_exhausted[OF run2] run1 run2 show ?thesis
    by simp
qed

text \<open>
  C7. With \<open>maxRetry > 0\<close> and a body, the body is read exactly once, before any attempt,
  which uses the caller's stream up. Every attempt is a call of the wrapped transport with
  a fresh stream over the bytes that were read: whoever reads the body of an attempt gets
  those bytes, whole, and no error. The witness is the stub that answers 503, 503, 200
  with \<open>maxRetry = 3\<close> and the body \<open>payload\<close>: the result is the 200 response and the
  body of each of the three requests the stub was given reads \<open>payload\<close>.
\<close>

theorem RoundTrip_body_replayed:
  assumes "0 < maxRetry t" and "Body req = Some rd" and "RoundTrip t req s = (res, tr, s')"
  shows "\<exists>tr'. tr = ReadBody # tr' \<and> ReadBody \<notin> set tr' \<and> performed t s tr' s' \<and>
     (\<forall>p \<in> set (attempts tr').
        Body (fst p) = Some (NewBuffer (fst (fst (ReadAll rd)))) \<and>
        fst (ReadAll (the (Body (fst p)))) = (fst (fst (ReadAll rd)), None))"
proof -
  obtain saved err left where rd: "ReadAll rd = ((saved, err), left)"
    by (cases "ReadAll rd") auto
  show ?thesis
  proof (cases err)
    case (Some e)
    with assms rd show ?thesis by (auto simp: RoundTrip_def)
  next
    case None
    obtain res0 tr0 s0 where
      run: "for_loop t saved (req\<lparr>Body := Some left\<rparr>) 0 (None, None) s = (res0, tr0, s0)"
      by (cases "for_loop t saved (req\<lparr>Body := Some left\<rparr>) 0 (None, None) s")
    with assms rd None have tr: "tr = ReadBody # tr0" "s' = s0" by (auto simp: RoundTrip_def)
    from for_loop_bodies[OF run] for_loop_performed[OF run] tr rd show ?thesis
      by (simp add: ReadAll_def NewBuffer_def)
  qed
qed

theorem RoundTrip_body_replayed_witness:
  "RoundTrip (RetriableTransport 3 stub) payload_req ([status 503, status 503, status 200], []) =
     (Inr (status 200),
      [ReadBody, Call payload_req (Inr (status 503)), Sleep 100000000,
       Call payload_req (Inr (status 503)), Sleep 100000000,
       Call payload_req (Inr (status 200))],
      ([], [payload_req, payload_req, payload_req]))
   \<and> map (\<lambda>rq. fst (ReadAll (the (Body rq)))) [payload_req, payload_req, payload_req]
       = [(''payload'', None), (''payload'', None), (''payload'', None)]
   \<and> snd (ReadAll (the (Body payload_req))) = \<lparr>unread = [], fail = None\<rparr>"
proof -
  have run: "RoundTrip (RetriableTransport 3 stub) payload_req ([status 503, status 503, status 200], []) =
     (Inr (status 200),
      [ReadBody, Call payload_req (Inr (status 503)), Sleep 100000000,
       Call payload_req (Inr (status 503)), Sleep 100000000,
       Call payload_req (Inr (status 200))],
      ([], [payload_req, payload_req, payload_req]))"
    by (simp add: RoundTrip_def RetriableTransport_def for_loop.simps stub_def payload_req_def
        ReadAll_def spent_def NewBuffer_def status_def refused_def StatusInternalServerError_def
        Millisecond_def Let_def)
  have "0 < maxRetry (RetriableTransport 3 stub)" by (simp add: RetriableTransport_def)
  from RoundTrip_body_replayed[OF this _ run, of "NewBuffer ''payload''"] run show ?thesis
    by (simp add: payload_req_def NewBuffer_def ReadAll_def spent_def)
qed

theorem RoundTrip_no_attempt_witness:
  "maxRetry (RetriableTransport (- 1) stub) \<le> 0 \<and>
   RoundTrip (RetriableTransport (- 1) stub) payload_req ([status 200], []) =
     (Inr (None, None), [], ([status 200], []))"
  using RoundTrip_no_attempt[of "RetriableTransport (- 1) stub" payload_req "([status 200], [])"]
  by (simp add: RetriableTransport_def)

section \<open>Proofs: the status-envelope codec\<close>



section \<open>Proofs: canonical header keys\<close>

lemma of_char_canonical_byte: "(of_char (canonical_byte u c) :: nat) = (let n = (of_char c :: nat) in (if u \<and> 97 \<le> n \<and> n \<le> 122 then n - 32
               else if \<not> u \<and> 65 \<le> n \<and> n \<le> 90 then n + 32
               else n))"
  by (auto simp: canonical_byte_def Let_def)

lemma canonical_byte_idem: "canonical_byte u (canonical_byte u c) = canonical_byte u c"
  apply (rule of_char_eqI[where ?'a = nat])
  apply (subst of_char_canonical_byte)
  apply (subst of_char_canonical_byte)
  apply (subst of_char_canonical_byte)
  apply (auto simp: Let_def)
  done

lemma letters_valid:
  "65 \<le> (of_char d :: nat) \<and> (of_char d :: nat) \<le> 90 \<Longrightarrow> validHeaderFieldByte d"
  "97 \<le> (of_char d :: nat) \<and> (of_char d :: nat) \<le> 122 \<Longrightarrow> validHeaderFieldByte d"
  unfolding validHeaderFieldByte_def Let_def by blast+

lemma canonical_byte_valid:
  assumes "validHeaderFieldByte c"
  shows "validHeaderFieldByte (canonical_byte u c)"
proof -
  let ?n = "of_char c :: nat"
  consider (up) "u \<and> 97 \<le> ?n \<and> ?n \<le> 122"
    | (low) "\<not> u \<and> 65 \<le> ?n \<and> ?n \<le> 90"
    | (same) "\<not> (u \<and> 97 \<le> ?n \<and> ?n \<le> 122) \<and> \<not> (\<not> u \<and> 65 \<le> ?n \<and> ?n \<le> 90)"
    by blast
  then show ?thesis
  proof cases
    case up
    then have "(of_char (canonical_byte u c) :: nat) = ?n - 32" by (simp add: of_char_canonical_byte Let_def)
    with up show ?thesis by (intro letters_valid(1)) auto
  next
    case low
    then have "(of_char (canonical_byte u c) :: nat) = ?n + 32" by (simp add: of_char_canonical_byte Let_def)
    with low show ?thesis by (intro letters_valid(2)) auto
  next
    case same
    then have "canonical_byte u c = c" by (auto simp: canonical_byte_def Let_def)
    with assms show ?thesis by simp
  qed
qed

lemma canonical_Cons: "canonical u (c # cs) = canonical_byte u c # canonical (canonical_byte u c = CHR ''-'') cs"
  by (simp add: Let_def)

lemma canonical_idem: "canonical u (canonical u s) = canonical u s"
  by (induction s arbitrary: u) (simp_all only: canonical.simps(1) canonical_Cons canonical_byte_idem)

lemma canonical_valid: "list_all validHeaderFieldByte s \<Longrightarrow> list_all validHeaderFieldByte (canonical u s)"
proof (induction s arbitrary: u)
  case Nil
  show ?case by simp
next
  case (Cons c cs)
  then show ?case by (simp only: canonical_Cons list.pred_inject) (simp add: canonical_byte_valid)
qed

lemma Canonical_idem: "CanonicalMIMEHeaderKey (CanonicalMIMEHeaderKey s) = CanonicalMIMEHeaderKey s"
  by (simp add: CanonicalMIMEHeaderKey_def canonical_idem canonical_valid)

section \<open>Proofs: the transport stack\<close>

text \<open>
  C2, as the code has it. \<open>WrapTransport(base, A, B, C)\<close> applies the wrappers in the order
  given, so the last one is outermost: the result is the delegating closure around
  \<open>C(B(A(base)))\<close>, and at call time \<open>C\<close> runs first.
\<close>

theorem WrapTransport_order:
  "WrapTransport base [A, B, C] = delegating (C (B (A base)))"
  by (simp add: WrapTransport_def)

lemma X_Layer: "CanonicalMIMEHeaderKey ''X-Layer'' = ''X-Layer''"
  by (simp add: CanonicalMIMEHeaderKey_def validHeaderFieldByte_def canonical_byte_def Let_def char_of_eq_iff)

text \<open>
  C2 as stated fails: with three wrappers that each add their name under the header
  \<open>X-Layer\<close>, the base transport of \<open>WrapTransport(base, A, B, C)\<close> sees the values in the
  order \<open>C, B, A\<close>, while that of \<open>A(B(C(base)))\<close> sees \<open>A, B, C\<close>.
\<close>

theorem WrapTransport_order_counterexample:
  "WrapTransport stub [layer ''A'', layer ''B'', layer ''C''] get_req ([status 200], []) =
     (Inr (status 200), ([], [get_req\<lparr>Header := [(''X-Layer'', [''C'', ''B'', ''A''])]\<rparr>])) \<and>
   (layer ''A'' (layer ''B'' (layer ''C'' stub))) get_req ([status 200], []) =
     (Inr (status 200), ([], [get_req\<lparr>Header := [(''X-Layer'', [''A'', ''B'', ''C''])]\<rparr>]))"
  by (simp add: WrapTransport_def delegating_def layer_def HeaderTransport_def Header_Add_def
      Values_Add_def at_def X_Layer stub_def get_req_def status_def Let_def)

text \<open>
  C3, as the code has it. In the stack that \<open>BuildTransport\<close> assembles the timeout
  wrapper is outermost: the rest of the chain (tracing when enabled, logging, JSON
  stamping when the content type is empty or JSON, status validation, base transport) is
  called with the request under the context derived by the timeout. The status-code
  validator is innermost: it wraps the base transport directly, so it is the first layer
  to see the response of the wire, and when the status is not an expected one the layers
  around it are handed its error and no response.
\<close>

theorem BuildTransport_stack:
  assumes "b_err b = None"
  shows "\<exists>inner.
    BuildTransport env b = Inr (delegating (TimeoutTransport (b_timeout b) inner)) \<and>
    (\<forall>req w. TimeoutTransport (b_timeout b) inner req w =
       inner (req\<lparr>Ctx := WithTimeout (Ctx req)
         (if b_timeout b \<le> 0 then defaultTransprtTimeout else b_timeout b)\<rparr>) w) \<and>
    inner =
      (if b_tracing b then TracingTransport (otelhttp_NewTransport env) (os_Args0 env) [] else id)
        (LoggingTransport (b_loggingReq b) (b_loggingResp b)
          ((if b_contentType b = [] \<or> b_contentType b = ContentTypeJson then JsonTransport else id)
            (StatusCodesTransport (expected_codes b) (base_transport env b)))) \<and>
    (\<forall>req w r w'. base_transport env b req w = (Inr (Some r, None), w') \<and>
        StatusCode r \<notin> set (expected_codes b) \<longrightarrow>
       StatusCodesTransport (expected_codes b) (base_transport env b) req w =
         (Inr (None, Some (Err (''expected statuscodes:'' @ itoas (expected_codes b)
            @ '',got:'' @ itoa (StatusCode r)))), w'))"
  using assms
  by (auto simp: BuildTransport_def WrapTransport_def TimeoutTransport_def Let_def
      StatusCodesTransport_def)

section \<open>Proofs: the request built\<close>

lemma at_Nil: "at [] k = []"
  by (simp add: at_def)

lemma at_update: "at (AList.update key vs m) k = (if k = key then vs else at m k)"
  by (simp add: at_def update_conv')

lemma at_Values_Add: "at (Values_Add key v m) k = (if k = key then at m key @ [v] else at m k)"
  by (simp add: Values_Add_def at_update)

lemma at_Cons: "at ((key, vs) # m) k = (if k = key then vs else at m k)"
  by (simp add: at_def)

lemma at_absent: "k \<notin> fst ` set m \<Longrightarrow> at m k = []"
  by (simp add: at_def map_of_eq_None_iff[THEN iffD2])

lemma at_fold_Values_Add:
  "at (fold (Values_Add key) vs m) k = (if k = key then at m key @ vs else at m k)"
  by (induction vs arbitrary: m) (simp_all add: at_Values_Add)

lemma at_add_all_Values_Add:
  "distinct (map fst src) \<Longrightarrow> at (add_all Values_Add src dst) k = at dst k @ at src k"
proof (induction src arbitrary: dst)
  case Nil
  show ?case by (simp add: add_all_def at_Nil)
next
  case (Cons e src)
  obtain key vs where e: "e = (key, vs)" by (cases e)
  from Cons.prems e have d: "distinct (map fst src)" and fresh: "key \<notin> fst ` set src" by auto
  have "at (add_all Values_Add (e # src) dst) k =
        at (add_all Values_Add src (fold (Values_Add key) vs dst)) k"
    by (simp add: add_all_def e)
  also have "\<dots> = at (fold (Values_Add key) vs dst) k @ at src k"
    by (rule Cons.IH[OF d])
  also have "\<dots> = at dst k @ at (e # src) k"
    using fresh by (simp add: at_fold_Values_Add e at_Cons at_absent)
  finally show ?case .
qed

lemma distinct_Values_Add:
  "distinct (map fst m) \<Longrightarrow> distinct (map fst (Values_Add key v m))"
  by (simp add: Values_Add_def distinct_update)

lemma fold_pairs:
  "distinct (map fst m) \<Longrightarrow>
    distinct (map fst (fold (\<lambda>(key, val) m. Values_Add key val m) ps m)) \<and>
    at (fold (\<lambda>(key, val) m. Values_Add key val m) ps m) k = at m k @ values_of k ps"
proof (induction ps arbitrary: m)
  case Nil
  then show ?case by (simp add: values_of_def)
next
  case (Cons p ps)
  obtain key val where p: "p = (key, val)" by (cases p)
  from Cons.prems have d: "distinct (map fst (Values_Add key val m))"
    by (rule distinct_Values_Add)
  from Cons.IH[OF d] show ?case by (simp add: p at_Values_Add values_of_def)
qed

lemma Query_distinct: "distinct (map fst (Query u))"
  using fold_pairs[of "[]"] by (simp add: Query_def)

lemma Query_at: "at (Query u) k = values_of k (query_pairs (RawQuery u))"
  using fold_pairs[of "[]" "query_pairs (RawQuery u)" k] by (simp add: Query_def at_Nil)

lemma upperhex_digit:
  "n < 16 \<Longrightarrow> ishex (upperhex n) \<and> unhex (upperhex n) = n \<and>
     upperhex n \<notin> {CHR ''&'', CHR ''='', CHR '';''}"
proof -
  assume "n < 16"
  then have "n = 0 \<or> n = 1 \<or> n = 2 \<or> n = 3 \<or> n = 4 \<or> n = 5 \<or> n = 6 \<or> n = 7 \<or> n = 8 \<or>
      n = 9 \<or> n = 10 \<or> n = 11 \<or> n = 12 \<or> n = 13 \<or> n = 14 \<or> n = 15" by arith
  then show ?thesis
    by (elim disjE) (simp_all add: upperhex_def ishex_def unhex_def)
qed

lemma of_char_less_256: "(of_char c :: nat) < 256"
proof -
  have "(of_char c :: nat) mod 256 = of_char c" by (rule of_char_mod_256)
  then show ?thesis by (metis mod_less_divisor zero_less_numeral)
qed

text \<open>What \<open>url.QueryEscape\<close> writes for one byte.\<close>

lemma QueryEscape_Cons:
  "QueryEscape (c # s) =
    (if c = CHR '' '' then ''+''
     else if shouldEscape c
     then [CHR ''%'', upperhex (of_char c div 16), upperhex (of_char c mod 16)]
     else [c]) @ QueryEscape s"
  by (simp add: QueryEscape_def)

lemma shouldEscape_marks:
  "shouldEscape CHR ''%''" "shouldEscape CHR ''+''" "shouldEscape CHR ''&''"
  "shouldEscape CHR ''=''" "shouldEscape CHR '';''"
  by (simp_all add: shouldEscape_def)

lemma QueryUnescape_QueryEscape: "QueryUnescape (QueryEscape s) = Some s"
proof (induction s)
  case Nil
  show ?case by (simp add: QueryEscape_def)
next
  case (Cons c s)
  have hi: "(of_char c :: nat) div 16 < 16" using of_char_less_256[of c] by arith
  have lo: "(of_char c :: nat) mod 16 < 16" by simp
  have whole: "char_of ((of_char c :: nat) div 16 * 16 + of_char c mod 16) = c" by simp
  show ?case
  proof (cases "c = CHR '' ''")
    case True
    then show ?thesis by (simp add: QueryEscape_Cons Cons.IH)
  next
    case False
    show ?thesis
    proof (cases "shouldEscape c")
      case True
      with False upperhex_digit[OF hi] upperhex_digit[OF lo] whole show ?thesis
        by (simp add: QueryEscape_Cons Cons.IH)
    next
      case plain: False
      with shouldEscape_marks have "c \<noteq> CHR ''%''" "c \<noteq> CHR ''+''" by auto
      with False plain show ?thesis by (simp add: QueryEscape_Cons Cons.IH)
    qed
  qed
qed

lemma QueryEscape_clean:
  "CHR ''&'' \<notin> set (QueryEscape s) \<and> CHR ''='' \<notin> set (QueryEscape s) \<and>
   CHR '';'' \<notin> set (QueryEscape s)"
proof (induction s)
  case Nil
  show ?case by (simp add: QueryEscape_def)
next
  case (Cons c s)
  have hi: "(of_char c :: nat) div 16 < 16" using of_char_less_256[of c] by arith
  have lo: "(of_char c :: nat) mod 16 < 16" by simp
  show ?case
  proof (cases "shouldEscape c")
    case True
    with upperhex_digit[OF hi] upperhex_digit[OF lo] Cons.IH show ?thesis
      by (auto simp: QueryEscape_Cons)
  next
    case False
    with shouldEscape_marks have "c \<noteq> CHR ''&''" "c \<noteq> CHR ''=''" "c \<noteq> CHR '';''" by auto
    with False Cons.IH show ?thesis by (auto simp: QueryEscape_Cons)
  qed
qed

lemma query_pair_encoded:
  "query_pair (QueryEscape k @ CHR ''='' # QueryEscape v) = Some (k, v)"
proof -
  have c: "Cut CHR ''='' (QueryEscape k @ CHR ''='' # QueryEscape v) = (QueryEscape k, QueryEscape v)"
  proof -
    have "x \<noteq> CHR ''=''" if "x \<in> set (QueryEscape k)" for x
      using that QueryEscape_clean[of k] by auto
    then show ?thesis by (simp add: Cut_def)
  qed
  show ?thesis
    using QueryEscape_clean[of k] QueryEscape_clean[of v]
    by (simp add: query_pair_def c QueryUnescape_QueryEscape)
qed

lemma split_on_step:
  "split_on c (x # xs) =
    (case split_on c xs of
       [] \<Rightarrow> []
     | r # rs \<Rightarrow> if x = c then [] # r # rs else (x # r) # rs)"
proof -
  have "split_on c xs \<noteq> []" by (induction xs) auto
  then show ?thesis by (cases "split_on c xs") auto
qed

lemma split_on_piece: "c \<notin> set p \<Longrightarrow> split_on c p = [p]"
  by (induction p) auto

lemma split_on_append: "c \<notin> set p \<Longrightarrow> split_on c (p @ c # rest) = p # split_on c rest"
  by (induction p) auto

lemma split_on_joined:
  "ps \<noteq> [] \<Longrightarrow> \<forall>p \<in> set ps. c \<notin> set p \<Longrightarrow> split_on c (joined c ps) = ps"
proof (induction ps rule: joined.induct)
  case (3 c x y ys)
  then show ?case by (simp add: split_on_append)
qed (simp_all add: split_on_piece)

text \<open>Parsing what was encoded gives the pairs back.\<close>

lemma query_pairs_encoded:
  "query_pairs (joined CHR ''&'' (map (\<lambda>(k, v). QueryEscape k @ CHR ''='' # QueryEscape v) ps)) = ps"
proof (cases "ps = []")
  case True
  then show ?thesis by (simp add: query_pairs_def query_pair_def List.map_filter_def)
next
  case False
  let ?enc = "\<lambda>(k, v). QueryEscape k @ CHR ''='' # QueryEscape v"
  have clean: "\<forall>p \<in> set (map ?enc ps). CHR ''&'' \<notin> set p"
    using QueryEscape_clean by auto
  have "split_on CHR ''&'' (joined CHR ''&'' (map ?enc ps)) = map ?enc ps"
    using False clean by (intro split_on_joined) simp_all
  moreover have "List.map_filter query_pair (map ?enc ps) = ps"
    by (induction ps) (auto simp: List.map_filter_def query_pair_encoded)
  ultimately show ?thesis by (simp add: query_pairs_def)
qed

lemma set_insert_key: "set (insert_key k ks) = insert k (set ks)"
  by (induction ks) auto

lemma distinct_insert_key: "k \<notin> set ks \<Longrightarrow> distinct ks \<Longrightarrow> distinct (insert_key k ks)"
  by (induction ks) (auto simp: set_insert_key)

lemma sort_keys_keeps: "set (sort_keys ks) = set ks \<and> (distinct ks \<longrightarrow> distinct (sort_keys ks))"
  by (induction ks) (auto simp: sort_keys_def set_insert_key distinct_insert_key)

lemma values_of_concat:
  "distinct ks \<Longrightarrow>
    values_of k (concat (map (\<lambda>k'. map (Pair k') (f k')) ks)) =
      (if k \<in> set ks then f k else [])"
proof (induction ks)
  case Nil
  show ?case by (simp add: values_of_def)
next
  case (Cons a ks)
  have own: "map snd (filter (\<lambda>p. fst p = k) (map (Pair a) (f a))) = (if k = a then f a else [])"
    by (induction "f a") (auto simp: filter_empty_conv comp_def)
  from Cons show ?case by (auto simp: own values_of_def)
qed

lemma Values_Encode_pairs:
  "Values_Encode m = joined CHR ''&''
     (map (\<lambda>(k, v). QueryEscape k @ CHR ''='' # QueryEscape v)
        (concat (map (\<lambda>k. map (Pair k) (at m k)) (sort_keys (map fst m)))))"
  by (simp add: Values_Encode_def map_concat comp_def)

text \<open>
  Under every key, the query string that \<open>Values.Encode\<close> writes for a Go map parses back
  to the values the map holds under that key, in their order.
\<close>

lemma Values_Encode_parsed:
  assumes "distinct (map fst m)"
  shows "values_of k (query_pairs (Values_Encode m)) = at m k"
proof -
  from assms sort_keys_keeps[of "map fst m"]
  have d: "distinct (sort_keys (map fst m))" and s: "set (sort_keys (map fst m)) = fst ` set m"
    by auto
  show ?thesis
    by (simp add: Values_Encode_pairs query_pairs_encoded values_of_concat[OF d] s at_absent)
qed

lemma distinct_add_all:
  "distinct (map fst dst) \<Longrightarrow> distinct (map fst (add_all Values_Add src dst))"
proof (induction src arbitrary: dst)
  case Nil
  then show ?case by (simp add: add_all_def)
next
  case (Cons e src)
  obtain key vs where e: "e = (key, vs)" by (cases e)
  have "distinct (map fst (fold (Values_Add key) vs dst))"
    using Cons.prems by (induction vs arbitrary: dst) (simp_all add: distinct_Values_Add)
  from Cons.IH[OF this] show ?case by (simp add: add_all_def e)
qed

lemma final_query_distinct: "distinct (map fst (final_query b u))"
  by (simp add: final_query_def Let_def distinct_add_all)

text \<open>
  C5, as the code has it. When \<open>BuildHTTPReq\<close> produces a request, its URL is the parsed
  URL of base URL and path with the query replaced by the encoding of the merged
  parameters (left as it is when there are none). Under every key the merged parameters
  hold the builder's values followed by the values of those pairs of the path's query
  string that \<open>url.ParseQuery\<close> takes up, in their order: of these nothing is dropped. The
  builder's map is a Go map, so it lists no key twice.
\<close>

theorem BuildHTTPReq_query:
  assumes "BuildHTTPReq lib c b = Inr r"
    and "distinct (map fst (b_urlValues b))"
  shows "\<exists>u. url_Parse lib (b_baseURL b @ b_path b) = Inr u \<and>
    (\<forall>k. at (final_query b u) k =
           at (b_urlValues b) k @ values_of k (query_pairs (RawQuery u))) \<and>
    URL r = url_String lib (if final_query b u \<noteq> []
                            then u\<lparr>RawQuery := Values_Encode (final_query b u)\<rparr> else u) \<and>
    (\<forall>k. values_of k (query_pairs (Values_Encode (final_query b u))) = at (final_query b u) k)"
proof -
  from assms(1) obtain u where u: "url_Parse lib (b_baseURL b @ b_path b) = Inr u"
    by (auto simp: BuildHTTPReq_def split: option.splits sum.splits)
  have q: "at (final_query b u) k =
      at (b_urlValues b) k @ values_of k (query_pairs (RawQuery u))" for k
    using assms(2)
    by (simp add: final_query_def Let_def at_add_all_Values_Add Query_distinct at_Nil Query_at)
  have e: "values_of k (query_pairs (Values_Encode (final_query b u))) = at (final_query b u) k"
    for k
    by (rule Values_Encode_parsed[OF final_query_distinct])
  from assms(1) u have "URL r = url_String lib (if final_query b u \<noteq> []
                            then u\<lparr>RawQuery := Values_Encode (final_query b u)\<rparr> else u)"
    by (auto simp: BuildHTTPReq_def NewRequestWithContext_def Let_def
        split: option.splits sum.splits prod.splits if_splits)
  with u q e show ?thesis by blast
qed

lemma at_fold_Header_Set:
  "CanonicalMIMEHeaderKey key = key \<Longrightarrow>
    at (fold (Header_Set key) vs m) k = (if k = key \<and> vs \<noteq> [] then [last vs] else at m k)"
  by (induction vs arbitrary: m) (auto simp: Header_Set_def at_update)

lemma at_add_all_Header_Set:
  "distinct (map fst src) \<Longrightarrow> list_all (\<lambda>key. CanonicalMIMEHeaderKey key = key) (map fst src) \<Longrightarrow>
    at (add_all Header_Set src dst) k =
      (if at src k \<noteq> [] then [last (at src k)] else at dst k)"
proof (induction src arbitrary: dst)
  case Nil
  show ?case by (simp add: add_all_def at_Nil)
next
  case (Cons e src)
  obtain key vs where e: "e = (key, vs)" by (cases e)
  from Cons.prems e have d: "distinct (map fst src)" and fresh: "key \<notin> fst ` set src"
    and c: "CanonicalMIMEHeaderKey key = key"
    and cs: "list_all (\<lambda>key. CanonicalMIMEHeaderKey key = key) (map fst src)" by auto
  have "at (add_all Header_Set (e # src) dst) k =
        at (add_all Header_Set src (fold (Header_Set key) vs dst)) k"
    by (simp add: add_all_def e)
  also have "\<dots> = (if at src k \<noteq> [] then [last (at src k)]
                    else at (fold (Header_Set key) vs dst) k)"
    by (rule Cons.IH[OF d cs])
  also have "\<dots> = (if at (e # src) k \<noteq> [] then [last (at (e # src) k)] else at dst k)"
    using fresh by (simp add: at_fold_Header_Set[OF c] e at_Cons at_absent)
  finally show ?case .
qed

lemma Canonical_ContentTypeKey: "CanonicalMIMEHeaderKey ContentTypeKey = ContentTypeKey"
  by (simp add: ContentTypeKey_def CanonicalMIMEHeaderKey_def validHeaderFieldByte_def canonical_byte_def Let_def
      char_of_eq_iff)

text \<open>
  C9, as the code has it. For a key \<open>K\<close> under which the builder's header map holds more
  than one value, the request built holds exactly one value under \<open>K\<close>. It is the last of
  the builder's values, unless \<open>K\<close> is \<open>Content-Type\<close> and that last value is empty: then
  it is the builder's content type, or \<open>application/json\<close> when the builder has none. The
  header map is a Go map whose keys are in canonical form, as \<open>Header.Add\<close> and
  \<open>Header.Set\<close> leave them.
\<close>

theorem BuildHTTPReq_header:
  assumes "BuildHTTPReq lib c b = Inr r"
    and "distinct (map fst (b_header b))"
    and "list_all (\<lambda>key. CanonicalMIMEHeaderKey key = key) (map fst (b_header b))"
    and "1 < length (at (b_header b) K)"
  shows "at (Header r) K =
    [if K = ContentTypeKey \<and> last (at (b_header b) K) = []
     then (if b_contentType b = [] then ContentTypeJson else b_contentType b)
     else last (at (b_header b) K)]"
proof -
  let ?headers = "add_all Header_Set (b_header b) []"
  let ?contentType = "if b_contentType b = [] then ContentTypeJson else b_contentType b"
  from assms(4) have ne: "at (b_header b) K \<noteq> []" by auto
  have h: "at ?headers K = [last (at (b_header b) K)]"
    using ne by (simp add: at_add_all_Header_Set[OF assms(2,3)])
  from assms(1) have r: "Header r = (if Header_Get ?headers ContentTypeKey = []
      then Header_Set ContentTypeKey ?contentType ?headers else ?headers)"
    by (auto simp: BuildHTTPReq_def NewRequestWithContext_def Let_def
        split: option.splits sum.splits prod.splits if_splits)
  show ?thesis
  proof (cases "K = ContentTypeKey")
    case True
    show ?thesis
    proof (cases "last (at (b_header b) K) = []")
      case blank: True
      with True h have "Header_Get ?headers ContentTypeKey = []"
        by (simp add: Header_Get_def Canonical_ContentTypeKey)
      with r True blank show ?thesis
        by (simp add: Header_Set_def Canonical_ContentTypeKey at_update)
    next
      case False
      with True h have "Header_Get ?headers ContentTypeKey \<noteq> []"
        by (simp add: Header_Get_def Canonical_ContentTypeKey)
      with r h False show ?thesis by simp
    qed
  next
    case False
    with r h show ?thesis
      by (simp add: Header_Set_def Canonical_ContentTypeKey at_update)
  qed
qed

theorem BuildTransport_stack_witness:
  "b_err untraced_builder = None \<and>
   BuildTransport no_collaborators untraced_builder =
     Inr (delegating (TimeoutTransport defaultTransprtTimeout
            (LoggingTransport True True
              (JsonTransport (StatusCodesTransport [200] (on_net stub))))))"
proof -
  have ok: "b_err untraced_builder = None" by (simp add: untraced_builder_def)
  from BuildTransport_stack[OF ok, of no_collaborators] ok show ?thesis
    by (auto simp: untraced_builder_def expected_codes_def base_transport_def StatusOK_def
        ContentTypeJson_def Let_def)
qed

lemma Canonical_literals:
  "CanonicalMIMEHeaderKey ''Content-Type'' = ''Content-Type''"
  "CanonicalMIMEHeaderKey ''Connection'' = ''Connection''"
  by (simp_all add: CanonicalMIMEHeaderKey_def validHeaderFieldByte_def canonical_byte_def Let_def char_of_eq_iff)

text \<open>
  C3 as stated fails in its second half: with tracing off and response logging on, the
  base transport answers 404. The validator turns the response into an error before the
  logging layer can read it: the record \<open>got http resp\<close> holds neither the status code nor
  the response body, and the result is the validator's error.
\<close>

theorem BuildTransport_validates_first:
  "send_through (BuildTransport no_collaborators untraced_builder) get_req
      \<lparr>logged = [], net = ([not_found], [])\<rparr> =
   Inr (Inr (None, Some (Err ''expected statuscodes:[200],got:404'')),
        \<lparr>logged =
           [Println ''======='' [],
            Info ''send http req''
              [StrAttr ''http_method'' ''GET'', StrAttr ''http_url'' ''http://example.test/'',
               StrAttr ''traceID'' [], StrAttr ''spanID'' []],
            Info ''got http resp''
              [StrAttr ''http_method'' ''GET'', StrAttr ''http_url'' ''http://example.test/'',
               StrAttr ''traceID'' [], StrAttr ''spanID'' []]],
         net = ([], [get_req\<lparr>Header := [(''Content-Type'', [''application/json''])],
                            Ctx := background\<lparr>timeouts := [10000000000]\<rparr>\<rparr>])\<rparr>)"
  by (simp add: send_through_def BuildTransport_def untraced_builder_def base_transport_def
      expected_codes_def WrapTransport_def delegating_def TimeoutTransport_def WithTimeout_def
      LoggingTransport_def JsonTransport_def StatusCodesTransport_def on_net_def stub_def
      not_found_def get_req_def background_def slog_Info_def Header_Get_def Header_Add_def
      Values_Add_def at_def Canonical_literals ContentTypeJson_def
      ContentTypeKey_def defaultTransprtTimeout_def Second_def StatusOK_def itoas_def
      itoa_def digits.simps Let_def)

lemma plain_urls_simps:
  "url_Parse plain_urls s = Inr \<lparr>Scheme = [], Host = [], Path = fst (Cut CHR ''?'' s),
        RawQuery = snd (Cut CHR ''?'' s), Fragment = []\<rparr>"
  "url_String plain_urls u = Path u @ (if RawQuery u = [] then [] else CHR ''?'' # RawQuery u)"
  "NewRequest_refuses plain_urls me ur = None"
  by (simp_all add: plain_urls_def)

lemma login_pairs: "query_pairs ''q1=a&q2=b'' = [(''q1'', ''a''), (''q2'', ''b'')]"
  by (simp add: query_pairs_def query_pair_def Cut_def List.map_filter_def split_on_step
      del: split_on.simps(2))

lemma login_fields:
  "b_err login_builder = None" "b_baseURL login_builder = []"
  "b_path login_builder = ''https://www.abcd123.top/api/v1/login?q1=a&q2=b''"
  "b_method login_builder = ''GET''" "b_req login_builder = None"
  "b_urlValues login_builder = [(''q3'', [''c'']), (''q1'', [''z''])]"
  "b_header login_builder = [(''X-Token'', [''one'', ''two''])]"
  "b_contentType login_builder = ContentTypeJson"
  by (simp_all add: login_builder_def)

lemma login_final_query:
  "final_query login_builder
        \<lparr>Scheme = [], Host = [], Path = ''https://www.abcd123.top/api/v1/login'',
         RawQuery = ''q1=a&q2=b'', Fragment = []\<rparr> =
     [(''q3'', [''c'']), (''q1'', [''z'', ''a'']), (''q2'', [''b''])]"
  by (simp add: final_query_def Query_def login_pairs login_fields add_all_def Values_Add_def at_def)

lemma login_encoded:
  "Values_Encode [(''q3'', [''c'']), (''q1'', [''z'', ''a'']), (''q2'', [''b''])] =
     ''q1=z&q1=a&q2=b&q3=c''"
  by (simp add: Values_Encode_def sort_keys_def QueryEscape_def shouldEscape_def at_def Let_def)

lemma X_Token: "CanonicalMIMEHeaderKey ''X-Token'' = ''X-Token''"
  by (simp add: CanonicalMIMEHeaderKey_def validHeaderFieldByte_def canonical_byte_def Let_def char_of_eq_iff)

lemma login_request:
  "BuildHTTPReq plain_urls background login_builder =
     Inr \<lparr>Method = ''GET'', URL = ''https://www.abcd123.top/api/v1/login?q1=z&q1=a&q2=b&q3=c'',
          Header = [(''X-Token'', [''two'']), (''Content-Type'', [''application/json''])],
          Body = None, Ctx = background\<rparr>"
  unfolding BuildHTTPReq_def
  by (simp add: login_fields plain_urls_simps Cut_def login_final_query login_encoded
      NewRequestWithContext_def Let_def add_all_def Header_Set_def Header_Get_def at_def
      ContentTypeKey_def ContentTypeJson_def Canonical_literals X_Token)

lemma login_encoded_pairs:
  "query_pairs ''q1=z&q1=a&q2=b&q3=c'' = [(''q1'', ''z''), (''q1'', ''a''), (''q2'', ''b''), (''q3'', ''c'')]"
  by (simp add: query_pairs_def query_pair_def Cut_def List.map_filter_def split_on_step
      del: split_on.simps(2))

theorem BuildHTTPReq_query_witness:
  "BuildHTTPReq plain_urls background login_builder =
     Inr \<lparr>Method = ''GET'', URL = ''https://www.abcd123.top/api/v1/login?q1=z&q1=a&q2=b&q3=c'',
          Header = [(''X-Token'', [''two'']), (''Content-Type'', [''application/json''])],
          Body = None, Ctx = background\<rparr> \<and>
   b_urlValues login_builder = [(''q3'', [''c'']), (''q1'', [''z''])] \<and>
   query_pairs ''q1=a&q2=b'' = [(''q1'', ''a''), (''q2'', ''b'')] \<and>
   map (at (final_query login_builder
        \<lparr>Scheme = [], Host = [], Path = ''https://www.abcd123.top/api/v1/login'',
         RawQuery = ''q1=a&q2=b'', Fragment = []\<rparr>)) [''q1'', ''q2'', ''q3'', ''q4''] =
     [[''z'', ''a''], [''b''], [''c''], []] \<and>
   map (\<lambda>k. values_of k (query_pairs ''q1=z&q1=a&q2=b&q3=c'')) [''q1'', ''q2'', ''q3'', ''q4''] =
     [[''z'', ''a''], [''b''], [''c''], []]"
proof -
  have d: "distinct (map fst (b_urlValues login_builder))" by (simp add: login_builder_def)
  from BuildHTTPReq_query[OF login_request d] login_request show ?thesis
    by (simp add: login_fields plain_urls_simps Cut_def login_pairs login_encoded_pairs
        at_def values_of_def)
qed

lemma rejected_pair_fields:
  "b_err rejected_pair_builder = None" "b_baseURL rejected_pair_builder = ''http://example.test''"
  "b_path rejected_pair_builder = ''/items?b=%zz&c=3''"
  "b_method rejected_pair_builder = ''GET''" "b_req rejected_pair_builder = None"
  "b_urlValues rejected_pair_builder = [(''a'', [''1''])]"
  "b_header rejected_pair_builder = []"
  "b_contentType rejected_pair_builder = ContentTypeJson"
  by (simp_all add: rejected_pair_builder_def login_fields)

lemma rejected_pairs: "query_pairs ''b=%zz&c=3'' = [(''c'', ''3'')]"
  by (simp add: query_pairs_def query_pair_def Cut_def List.map_filter_def ishex_def Let_def
      split_on_step del: split_on.simps(2))

lemma rejected_encoded: "Values_Encode [(''a'', [''1'']), (''c'', [''3''])] = ''a=1&c=3''"
  by (simp add: Values_Encode_def sort_keys_def QueryEscape_def shouldEscape_def at_def Let_def)

text \<open>
  C5 as stated fails for a path whose query string holds a pair that \<open>url.ParseQuery\<close>
  rejects. The builder holds \<open>a=1\<close> and the path is \<open>/items?b=%zz&c=3\<close>: \<open>URL.Query()\<close>
  passes over \<open>b=%zz\<close> (its error is dropped), the merged parameters are \<open>a=1\<close> and \<open>c=3\<close>,
  and the query of the request is \<open>a=1&c=3\<close>: the entry under \<open>b\<close> is lost.
\<close>

theorem BuildHTTPReq_drops_rejected_pair:
  "b_urlValues rejected_pair_builder = [(''a'', [''1''])] \<and>
   b_baseURL rejected_pair_builder @ b_path rejected_pair_builder =
     ''http://example.test/items?b=%zz&c=3'' \<and>
   split_on CHR ''&'' ''b=%zz&c=3'' = [''b=%zz'', ''c=3''] \<and>
   query_pairs ''b=%zz&c=3'' = [(''c'', ''3'')] \<and>
   BuildHTTPReq plain_urls background rejected_pair_builder =
     Inr \<lparr>Method = ''GET'', URL = ''http://example.test/items?a=1&c=3'',
          Header = [(''Content-Type'', [''application/json''])],
          Body = None, Ctx = background\<rparr>"
  unfolding BuildHTTPReq_def
  by (simp add: rejected_pair_fields plain_urls_simps Cut_def rejected_pairs rejected_encoded
      final_query_def Query_def
      NewRequestWithContext_def Let_def add_all_def Header_Set_def Header_Get_def
      Values_Add_def at_def
      ContentTypeKey_def ContentTypeJson_def Canonical_literals)

lemma blank_type_fields:
  "b_err blank_type_builder = None" "b_baseURL blank_type_builder = []"
  "b_path blank_type_builder = ''https://www.abcd123.top/api/v1/login?q1=a&q2=b''"
  "b_method blank_type_builder = ''GET''" "b_req blank_type_builder = None"
  "b_header blank_type_builder = [(''Content-Type'', [''text/plain'', ''''])]"
  "b_contentType blank_type_builder = ContentTypeJson"
  "final_query blank_type_builder u = final_query login_builder u"
  by (simp_all add: blank_type_builder_def login_fields final_query_def)

text \<open>
  C9 as stated fails for \<open>Content-Type\<close> with an empty last value: the builder holds
  \<open>text/plain\<close> and the empty string under it, \<open>headers.Get\<close> then returns the empty
  string, and the request is given the default content type, not the builder's last value.
\<close>

theorem BuildHTTPReq_blank_content_type:
  "at (b_header blank_type_builder) ''Content-Type'' = [''text/plain'', ''''] \<and>
   map_sum id (\<lambda>r. at (Header r) ''Content-Type'') (BuildHTTPReq plain_urls background blank_type_builder)
     = Inr [''application/json'']"
  unfolding BuildHTTPReq_def
  by (simp add: blank_type_fields plain_urls_simps Cut_def login_final_query login_encoded
      NewRequestWithContext_def Let_def add_all_def Header_Set_def Header_Get_def at_def
      ContentTypeKey_def ContentTypeJson_def Canonical_literals)

lemma xml_type_fields:
  "b_err xml_type_builder = None" "b_baseURL xml_type_builder = []"
  "b_path xml_type_builder = ''https://www.abcd123.top/api/v1/login?q1=a&q2=b''"
  "b_method xml_type_builder = ''GET''" "b_req xml_type_builder = None"
  "b_header xml_type_builder = [(''Content-Type'', [''text/plain'', ''''])]"
  "b_contentType xml_type_builder = ''text/xml''"
  "final_query xml_type_builder u = final_query login_builder u"
  by (simp_all add: xml_type_builder_def blank_type_builder_def login_fields final_query_def)

lemma xml_type_request:
  "BuildHTTPReq plain_urls background xml_type_builder =
     Inr \<lparr>Method = ''GET'', URL = ''https://www.abcd123.top/api/v1/login?q1=z&q1=a&q2=b&q3=c'',
          Header = [(''Content-Type'', [''text/xml''])],
          Body = None, Ctx = background\<rparr>"
  unfolding BuildHTTPReq_def
  by (simp add: xml_type_fields plain_urls_simps Cut_def login_final_query login_encoded
      NewRequestWithContext_def Let_def add_all_def Header_Set_def Header_Get_def at_def
      ContentTypeKey_def ContentTypeJson_def Canonical_literals)

theorem BuildHTTPReq_header_witness:
  "at (b_header login_builder) ''X-Token'' = [''one'', ''two''] \<and>
   map_sum id (\<lambda>r. at (Header r) ''X-Token'') (BuildHTTPReq plain_urls background login_builder)
     = Inr [''two''] \<and>
   at (b_header xml_type_builder) ''Content-Type'' = [''text/plain'', ''''] \<and>
   b_contentType xml_type_builder = ''text/xml'' \<and>
   map_sum id (\<lambda>r. at (Header r) ''Content-Type'') (BuildHTTPReq plain_urls background xml_type_builder)
     = Inr [''text/xml'']"
proof -
  have d: "distinct (map fst (b_header login_builder))" by (simp add: login_builder_def)
  have c: "list_all (\<lambda>key. CanonicalMIMEHeaderKey key = key) (map fst (b_header login_builder))"
    by (simp add: login_builder_def X_Token)
  have v: "at (b_header login_builder) ''X-Token'' = [''one'', ''two'']"
    by (simp add: login_builder_def at_def)
  have n: "1 < length (at (b_header login_builder) ''X-Token'')" by (simp add: v)
  have d': "distinct (map fst (b_header xml_type_builder))" by (simp add: xml_type_fields)
  have c': "list_all (\<lambda>key. CanonicalMIMEHeaderKey key = key) (map fst (b_header xml_type_builder))"
    by (simp add: xml_type_fields Canonical_literals)
  have v': "at (b_header xml_type_builder) ''Content-Type'' = [''text/plain'', '''']"
    by (simp add: xml_type_fields at_def)
  have n': "1 < length (at (b_header xml_type_builder) ''Content-Type'')" by (simp add: v')
  from BuildHTTPReq_header[OF login_request d c n]
    BuildHTTPReq_header[OF xml_type_request d' c' n'] v v' login_request xml_type_request
  show ?thesis by (simp add: ContentTypeKey_def xml_type_fields)
qed

section \<open>Proofs: builders in the store\<close>

lemma fresh_slice_mono:
  "fresh_slice n h sl \<Longrightarrow> next_addr h \<le> next_addr h' \<Longrightarrow> fresh_slice n h' sl"
  by (auto simp: fresh_slice_def)

lemma fresh_slice_nil: "fresh_slice n h nil_slice"
  by (simp add: fresh_slice_def nil_slice_def)

lemma fresh_slice_at: "fresh_map n h m \<Longrightarrow> fresh_slice n h (slice_at h m key)"
proof -
  assume f: "fresh_map n h m"
  show ?thesis
  proof (cases "map_of (entries h m) key")
    case None
    then show ?thesis by (simp add: slice_at_def fresh_slice_nil)
  next
    case (Some sl)
    then have "sl \<in> set (map snd (entries h m))"
      by (force dest: map_of_SomeD)
    with f have "fresh_slice n h sl" by (auto simp: fresh_map_def list_all_iff)
    with Some show ?thesis by (simp add: slice_at_def)
  qed
qed

lemma list_all_snd_update:
  "P v \<Longrightarrow> list_all P (map snd al) \<Longrightarrow> list_all P (map snd (AList.update k v al))"
  by (induction al) (auto simp: list_all_iff)

lemma append_frame:
  assumes u: "unchanged_below n h0 h" and f: "fresh_slice n h sl"
  shows "unchanged_below n h0 (fst (append h sl v))"
    and "fresh_slice n (fst (append h sl v)) (snd (append h sl v))"
    and "hmaps (fst (append h sl v)) = hmaps h"
    and "builders (fst (append h sl v)) = builders h"
    and "next_addr h \<le> next_addr (fst (append h sl v))"
proof -
  show "unchanged_below n h0 (fst (append h sl v))"
    using u f by (auto simp: append_def unchanged_below_def fresh_slice_def Let_def)
  show "fresh_slice n (fst (append h sl v)) (snd (append h sl v))"
    using u f by (auto simp: append_def unchanged_below_def fresh_slice_def Let_def)
  show "hmaps (fst (append h sl v)) = hmaps h"
    by (simp add: append_def Let_def)
  show "builders (fst (append h sl v)) = builders h"
    by (simp add: append_def Let_def)
  show "next_addr h \<le> next_addr (fst (append h sl v))"
    by (simp add: append_def Let_def)
qed

lemma fresh_map_mono:
  "fresh_map n h m \<Longrightarrow> next_addr h \<le> next_addr h' \<Longrightarrow> entries h' m = entries h m
    \<Longrightarrow> fresh_map n h' m"
  by (auto simp: fresh_map_def list_all_iff intro: fresh_slice_mono)

lemma store_Values_Add_frame:
  assumes u: "unchanged_below n h0 h" and f: "fresh_map n h m"
  shows "unchanged_below n h0 (store_Values_Add m key v h)"
    and "fresh_map n (store_Values_Add m key v h) m"
    and "fresh_map n h m' \<Longrightarrow> fresh_map n (store_Values_Add m key v h) m'"
    and "builders (store_Values_Add m key v h) = builders h"
    and "next_addr h \<le> next_addr (store_Values_Add m key v h)"
proof -
  let ?sl = "slice_at h m key"
  let ?h1 = "fst (append h ?sl v)"
  let ?sl1 = "snd (append h ?sl v)"
  let ?h2 = "store_Values_Add m key v h"
  have fs: "fresh_slice n h ?sl" by (rule fresh_slice_at[OF f])
  note a = append_frame[OF u fs, of v]
  have h2: "?h2 = ?h1\<lparr>hmaps := (hmaps ?h1)(m \<mapsto> AList.update key ?sl1 (entries ?h1 m))\<rparr>"
    by (simp add: store_Values_Add_def Let_def)
  have e1: "entries ?h1 m' = entries h m'" for m'
    by (simp add: entries_def a(3))
  from f have nm: "n \<le> m" by (simp add: fresh_map_def)
  show "unchanged_below n h0 ?h2"
    using a(1) nm by (auto simp: h2 unchanged_below_def)
  show nx: "next_addr h \<le> next_addr ?h2"
    using a(5) by (simp add: h2)
  show "builders ?h2 = builders h"
    using a(4) by (simp add: h2)
  have nx2: "next_addr ?h2 = next_addr ?h1" by (simp add: h2)
  have fresh2: "fresh_slice n ?h1 sl \<Longrightarrow> fresh_slice n ?h2 sl" for sl
    by (simp add: fresh_slice_def nx2)
  have old: "list_all (fresh_slice n ?h1) (map snd (entries h m))"
    using f a(5) by (auto simp: fresh_map_def list_all_iff intro: fresh_slice_mono)
  have "list_all (fresh_slice n ?h1) (map snd (AList.update key ?sl1 (entries h m)))"
    by (rule list_all_snd_update[OF a(2) old])
  then have "list_all (fresh_slice n ?h2) (map snd (AList.update key ?sl1 (entries h m)))"
    by (auto simp: list_all_iff intro: fresh2)
  moreover have "entries ?h2 m = AList.update key ?sl1 (entries h m)"
    by (simp add: h2 entries_def a(3))
  ultimately show "fresh_map n ?h2 m"
    using f nx by (simp add: fresh_map_def)
  show "fresh_map n ?h2 m'" if f': "fresh_map n h m'"
  proof (cases "m' = m")
    case True
    with \<open>fresh_map n ?h2 m\<close> show ?thesis by simp
  next
    case False
    then have "entries ?h2 m' = entries h m'"
      by (simp add: h2 entries_def a(3))
    with f' nx show ?thesis by (rule fresh_map_mono[rotated 2, rotated])
  qed
qed

lemma store_Header_Set_frame:
  assumes u: "unchanged_below n h0 h" and f: "fresh_map n h m"
  shows "unchanged_below n h0 (store_Header_Set m key v h)"
    and "fresh_map n (store_Header_Set m key v h) m"
    and "fresh_map n h m' \<Longrightarrow> fresh_map n (store_Header_Set m key v h) m'"
    and "builders (store_Header_Set m key v h) = builders h"
    and "next_addr h \<le> next_addr (store_Header_Set m key v h)"
proof -
  let ?a = "next_addr h"
  let ?sl = "\<lparr>s_arr = ?a, s_len = 1, s_cap = 1\<rparr>"
  let ?h1 = "h\<lparr>arrays := (arrays h)(?a \<mapsto> [v]), next_addr := ?a + 1\<rparr>"
  let ?h2 = "store_Header_Set m key v h"
  have h2: "?h2 = ?h1\<lparr>hmaps := (hmaps ?h1)(m \<mapsto>
      AList.update (CanonicalMIMEHeaderKey key) ?sl (entries ?h1 m))\<rparr>"
    by (simp add: store_Header_Set_def Let_def)
  from f have nm: "n \<le> m" and mn: "m < next_addr h" by (simp_all add: fresh_map_def)
  from u have na: "n \<le> ?a" by (simp add: unchanged_below_def)
  show "unchanged_below n h0 ?h2"
    using u nm by (auto simp: h2 unchanged_below_def)
  show nx: "next_addr h \<le> next_addr ?h2" by (simp add: h2)
  show "builders ?h2 = builders h" by (simp add: h2)
  have new: "fresh_slice n ?h2 ?sl" using na by (simp add: fresh_slice_def h2)
  have old: "list_all (fresh_slice n ?h2) (map snd (entries h m))"
    using f nx by (auto simp: fresh_map_def list_all_iff intro: fresh_slice_mono)
  have "entries ?h2 m = AList.update (CanonicalMIMEHeaderKey key) ?sl (entries h m)"
    by (simp add: h2 entries_def)
  with list_all_snd_update[OF new old] nm mn nx show m2: "fresh_map n ?h2 m"
    by (simp add: fresh_map_def)
  show "fresh_map n ?h2 m'" if f': "fresh_map n h m'"
  proof (cases "m' = m")
    case True
    with m2 show ?thesis by simp
  next
    case False
    then have "entries ?h2 m' = entries h m'" by (simp add: h2 entries_def)
    with f' nx show ?thesis by (rule fresh_map_mono[rotated 2, rotated])
  qed
qed

lemma at_work_Values_Add:
  "at_work n h0 um hm h \<Longrightarrow> m = um \<or> m = hm \<Longrightarrow> at_work n h0 um hm (store_Values_Add m key v h)"
  unfolding at_work_def by (auto intro: store_Values_Add_frame)

lemma at_work_Header_Add:
  "at_work n h0 um hm h \<Longrightarrow> m = um \<or> m = hm \<Longrightarrow> at_work n h0 um hm (store_Header_Add m key v h)"
  unfolding store_Header_Add_def by (rule at_work_Values_Add)

lemma at_work_Header_Set:
  "at_work n h0 um hm h \<Longrightarrow> m = um \<or> m = hm \<Longrightarrow> at_work n h0 um hm (store_Header_Set m key v h)"
  unfolding at_work_def by (auto intro: store_Header_Set_frame)

lemma builders_Values_Add: "builders (store_Values_Add m key v h) = builders h"
  by (simp add: store_Values_Add_def append_def Let_def)

lemma builders_Header_Add: "builders (store_Header_Add m key v h) = builders h"
  by (simp add: store_Header_Add_def builders_Values_Add)

lemma builders_Header_Set: "builders (store_Header_Set m key v h) = builders h"
  by (simp add: store_Header_Set_def Let_def)

lemma next_addr_Values_Add: "next_addr h \<le> next_addr (store_Values_Add m key v h)"
  by (simp add: store_Values_Add_def append_def Let_def)

lemma next_addr_Header_Add: "next_addr h \<le> next_addr (store_Header_Add m key v h)"
  by (simp add: store_Header_Add_def next_addr_Values_Add)

lemma next_addr_Header_Set: "next_addr h \<le> next_addr (store_Header_Set m key v h)"
  by (simp add: store_Header_Set_def Let_def)

text \<open>What holds of the store through every single \<open>add\<close> holds through the loops.\<close>

lemma copy_values_keeps:
  assumes "\<And>key v h. P h \<Longrightarrow> P (add dst key v h)" and "P h"
  shows "P (copy_values add src dst h)"
proof -
  have inner: "P h \<Longrightarrow> P (fold (\<lambda>i h. add dst key (f h ! i) h) is h)" for key f "is" h
    by (induction "is" arbitrary: h) (auto intro: assms(1))
  have outer: "P h \<Longrightarrow> P (fold (\<lambda>key h.
           (let vals = slice_at h src key
            in fold (\<lambda>i h. add dst key (array_at h (s_arr vals) ! i) h) [0..<s_len vals] h)) keys h)"
    for keys h
  proof (induction keys arbitrary: h)
    case Nil
    then show ?case by simp
  next
    case (Cons key keys)
    have "P (fold (\<lambda>i ha. add dst key (array_at ha (s_arr (slice_at h src key)) ! i) ha)
               [0..<s_len (slice_at h src key)] h)"
      by (rule inner[OF Cons.prems, where f = "\<lambda>ha. array_at ha (s_arr (slice_at h src key))"])
    from Cons.IH[OF this] show ?case by (simp add: Let_def)
  qed
  show ?thesis unfolding copy_values_def by (rule outer[OF assms(2)])
qed

lemma add_values_keeps:
  assumes "\<And>key v h. P h \<Longrightarrow> P (add dst key v h)" and "P h"
  shows "P (add_values add src dst h)"
proof -
  have inner: "P h \<Longrightarrow> P (fold (add dst key) vals h)" for key vals h
    by (induction vals arbitrary: h) (auto intro: assms(1))
  have outer: "P h \<Longrightarrow> P (fold (\<lambda>(key, vals) h. fold (add dst key) vals h) src h)" for h
    by (induction src arbitrary: h) (auto intro: inner)
  show ?thesis unfolding add_values_def by (rule outer[OF assms(2)])
qed

lemma make_map_frame:
  assumes "unchanged_below n h0 h"
  shows "unchanged_below n h0 (fst (make_map h))"
    and "fresh_map n (fst (make_map h)) (snd (make_map h))"
    and "fresh_map n h m \<Longrightarrow> fresh_map n (fst (make_map h)) m"
proof -
  from assms have n: "n \<le> next_addr h" by (simp add: unchanged_below_def)
  show "unchanged_below n h0 (fst (make_map h))"
    using assms by (auto simp: make_map_def unchanged_below_def)
  show "fresh_map n (fst (make_map h)) (snd (make_map h))"
    using n by (simp add: make_map_def fresh_map_def entries_def)
  show "fresh_map n (fst (make_map h)) m" if f: "fresh_map n h m"
  proof -
    from f have "m \<noteq> next_addr h" by (simp add: fresh_map_def)
    then have e: "entries (fst (make_map h)) m = entries h m"
      by (simp add: make_map_def entries_def)
    have nx: "next_addr h \<le> next_addr (fst (make_map h))" by (simp add: make_map_def)
    show ?thesis by (rule fresh_map_mono[OF f nx e])
  qed
qed

lemma new_builder_built:
  assumes w: "at_work n h0 um hm h" and um: "b_urlValues s = um" and hm: "b_header s = hm"
  shows "built n h0 (fst (new_builder s h)) (snd (new_builder s h))"
proof -
  let ?h = "fst (new_builder s h)"
  from w have u: "unchanged_below n h0 h" and fu: "fresh_map n h um" and fh: "fresh_map n h hm"
    by (simp_all add: at_work_def)
  from u have n: "n \<le> next_addr h" by (simp add: unchanged_below_def)
  have e: "entries ?h m = entries h m" for m by (simp add: new_builder_def entries_def)
  have nx: "next_addr h \<le> next_addr ?h" by (simp add: new_builder_def)
  have "unchanged_below n h0 ?h" using u by (auto simp: new_builder_def unchanged_below_def)
  moreover have "fresh_map n ?h um" by (rule fresh_map_mono[OF fu nx e])
  moreover have "fresh_map n ?h hm" by (rule fresh_map_mono[OF fh nx e])
  ultimately show ?thesis
    using n um hm by (simp add: built_def new_builder_def builder_at_def)
qed

lemma clone_built: "built (next_addr h) h (fst (clone b h)) (snd (clone b h))"
proof -
  let ?n = "next_addr h"
  let ?h1 = "fst (make_map h)"
  let ?um = "snd (make_map h)"
  let ?h2 = "copy_values store_Values_Add (b_urlValues (builder_at h b)) ?um ?h1"
  let ?h3 = "fst (make_map ?h2)"
  let ?hm = "snd (make_map ?h2)"
  let ?h4 = "copy_values store_Header_Add (b_header (builder_at ?h2 b)) ?hm ?h3"
  have u0: "unchanged_below ?n h h" by (simp add: unchanged_below_def)
  have w1: "at_work ?n h ?um ?um ?h1"
    using make_map_frame(1,2)[OF u0] by (simp add: at_work_def)
  have w2: "at_work ?n h ?um ?um ?h2"
    by (rule copy_values_keeps[where P = "at_work ?n h ?um ?um", OF _ w1])
      (rule at_work_Values_Add, simp_all)
  then have u2: "unchanged_below ?n h ?h2" and f2: "fresh_map ?n ?h2 ?um"
    by (simp_all add: at_work_def)
  have w3: "at_work ?n h ?um ?hm ?h3"
    using make_map_frame[OF u2] f2 by (simp add: at_work_def)
  have w4: "at_work ?n h ?um ?hm ?h4"
    by (rule copy_values_keeps[where P = "at_work ?n h ?um ?hm", OF _ w3])
      (rule at_work_Header_Add, simp_all)
  show ?thesis
    unfolding clone_def Let_def
    by (rule new_builder_built[OF w4]) simp_all
qed

lemma built_working: "built n h0 h b \<Longrightarrow> working n h0 h b h"
  by (simp add: built_def working_def at_work_def)

lemma working_built: "working n h0 h b h' \<Longrightarrow> built n h0 h b \<Longrightarrow> built n h0 h' b"
  by (auto simp: built_def working_def at_work_def builder_at_def)

lemma working_Values_Add:
  "working n h0 h b h' \<Longrightarrow> m = b_urlValues (builder_at h b) \<or> m = b_header (builder_at h b)
    \<Longrightarrow> working n h0 h b (store_Values_Add m key v h')"
  unfolding working_def
  using next_addr_Values_Add[of h' m key v]
  by (auto simp: builders_Values_Add intro: at_work_Values_Add)

lemma working_Header_Add:
  "working n h0 h b h' \<Longrightarrow> m = b_urlValues (builder_at h b) \<or> m = b_header (builder_at h b)
    \<Longrightarrow> working n h0 h b (store_Header_Add m key v h')"
  unfolding store_Header_Add_def by (rule working_Values_Add)

lemma working_Header_Set:
  "working n h0 h b h' \<Longrightarrow> m = b_urlValues (builder_at h b) \<or> m = b_header (builder_at h b)
    \<Longrightarrow> working n h0 h b (store_Header_Set m key v h')"
  unfolding working_def
  using next_addr_Header_Set[of h' m key v]
  by (auto simp: builders_Header_Set intro: at_work_Header_Set)

lemma assign_built:
  assumes b: "built n h0 h b"
    and um: "\<And>s. b_urlValues (f s) = b_urlValues s" and hm: "\<And>s. b_header (f s) = b_header s"
  shows "built n h0 (assign f b h) b"
proof -
  let ?h = "assign f b h"
  have e: "entries ?h m = entries h m" for m by (simp add: assign_def entries_def)
  have nx: "next_addr ?h = next_addr h" by (simp add: assign_def)
  have fm: "fresh_map n h m \<Longrightarrow> fresh_map n ?h m" for m
    by (erule fresh_map_mono) (simp_all add: nx e)
  from b have "unchanged_below n h0 ?h"
    by (auto simp: built_def assign_def unchanged_below_def)
  with b fm show ?thesis
    by (auto simp: built_def nx um hm builder_at_def assign_def)
qed

lemma chained_built:
  assumes "\<And>nb h1. built (next_addr h) h h1 nb \<Longrightarrow> built (next_addr h) h (change nb h1) nb"
  shows "built (next_addr h) h (fst (chained change b h)) (snd (chained change b h))"
  using clone_built[of h b] assms by (simp add: chained_def Let_def)

lemma Values_Add_built:
  "built n h0 h b \<Longrightarrow> built n h0 (store_Values_Add (b_urlValues (builder_at h b)) key v h) b"
  by (rule working_built[OF working_Values_Add[OF built_working]]) simp_all

lemma Header_Add_built:
  "built n h0 h b \<Longrightarrow> built n h0 (store_Header_Add (b_header (builder_at h b)) key v h) b"
  by (rule working_built[OF working_Header_Add[OF built_working]]) simp_all

lemma Header_Set_built:
  "built n h0 h b \<Longrightarrow> built n h0 (store_Header_Set (b_header (builder_at h b)) key v h) b"
  by (rule working_built[OF working_Header_Set[OF built_working]]) simp_all

lemma add_Values_built:
  assumes "built n h0 h b"
  shows "built n h0 (add_values store_Values_Add src (b_urlValues (builder_at h b)) h) b"
proof -
  have "working n h0 h b (add_values store_Values_Add src (b_urlValues (builder_at h b)) h)"
    by (rule add_values_keeps[where P = "working n h0 h b", OF _ built_working[OF assms]])
      (rule working_Values_Add, simp_all)
  then show ?thesis using assms by (rule working_built)
qed

lemma add_Headers_built:
  assumes "built n h0 h b"
  shows "built n h0 (add_values store_Header_Add src (b_header (builder_at h b)) h) b"
proof -
  have "working n h0 h b (add_values store_Header_Add src (b_header (builder_at h b)) h)"
    by (rule add_values_keeps[where P = "working n h0 h b", OF _ built_working[OF assms]])
      (rule working_Header_Add, simp_all)
  then show ?thesis using assms by (rule working_built)
qed

lemma chain_built: "built (next_addr h) h (fst (chain cl b h)) (snd (chain cl b h))"
proof (cases cl)
  case (Call_WithQueryString key v)
  then show ?thesis
    by (simp add: builder_WithQueryString_def) (rule chained_built, rule Values_Add_built)
next
  case (Call_WithURLValues urlValues)
  then show ?thesis
    by (simp add: builder_WithURLValues_def) (rule chained_built, rule add_Values_built)
next
  case (Call_WithQueryStringObj converted)
  then show ?thesis
    by (simp add: builder_WithQueryStringObj_def Let_def)
      (rule chained_built, rule add_Values_built, rule assign_built, simp_all)
next
  case (Call_WithHeader key v)
  then show ?thesis
    by (simp add: builder_WithHeader_def) (rule chained_built, rule Header_Add_built)
next
  case (Call_WithBasicAuth enc username password)
  then show ?thesis
    by (simp add: builder_WithBasicAuth_def) (rule chained_built, rule Header_Set_built)
next
  case (Call_WithHeaders headers)
  then show ?thesis
    by (simp add: builder_WithHeaders_def) (rule chained_built, rule add_Headers_built)
qed (simp_all add: builder_Get_def builder_Method_def builder_BaseURL_def builder_Head_def
      builder_Post_def builder_Put_def builder_Patch_def builder_Delete_def builder_Connect_def
      builder_Options_def builder_Trace_def builder_WithCodec_def builder_WithReq_def
      builder_WithResp_def builder_ExpectedStatusCodes_def builder_Logging_def
      builder_Timeout_def builder_Tracing_def builder_ContentType_def builder_Insecure_def
      builder_WithTransport_def chained_built assign_built)

lemma built_allocated:
  assumes "built n h0 h b"
  shows "allocated h b"
    and "\<forall>m \<in> set (map_addrs h b). n \<le> m"
    and "\<forall>a \<in> set (array_addrs h b). n \<le> a"
proof -
  let ?um = "b_urlValues (builder_at h b)" and ?hm = "b_header (builder_at h b)"
  from assms have fu: "fresh_map n h ?um" and fh: "fresh_map n h ?hm"
    and b: "b < next_addr h" "builders h b \<noteq> None"
    by (simp_all add: built_def)
  have sl: "\<forall>sl \<in> set (slices h b). fresh_slice n h sl"
    using fu fh by (auto simp: slices_def map_addrs_def fresh_map_def list_all_iff)
  show "allocated h b"
    using b fu fh sl
    by (auto simp: allocated_def map_addrs_def array_addrs_def fresh_map_def fresh_slice_def
        list_all_iff)
  show "\<forall>m \<in> set (map_addrs h b). n \<le> m"
    using fu fh by (simp add: map_addrs_def fresh_map_def)
  show "\<forall>a \<in> set (array_addrs h b). n \<le> a"
    using sl by (auto simp: array_addrs_def fresh_slice_def)
qed

lemma unchanged_allocated:
  assumes u: "unchanged_below (next_addr h) h h'" and a: "allocated h x"
  shows "builder_at h' x = builder_at h x"
    and "map_addrs h' x = map_addrs h x"
    and "slices h' x = slices h x"
    and "array_addrs h' x = array_addrs h x"
    and "snapshot h' x = snapshot h x"
    and "allocated h' x"
proof -
  from u have nx: "next_addr h \<le> next_addr h'"
    and same: "\<And>a. a < next_addr h \<Longrightarrow>
      arrays h' a = arrays h a \<and> hmaps h' a = hmaps h a \<and> builders h' a = builders h a"
    by (simp_all add: unchanged_below_def)
  from a have x: "x < next_addr h"
    and ms: "\<forall>m \<in> set (map_addrs h x). m < next_addr h"
    and ls: "\<forall>sl \<in> set (slices h x). s_len sl \<le> s_cap sl"
    and as: "\<forall>a \<in> set (array_addrs h x). a < next_addr h"
    by (simp_all add: allocated_def list_all_iff)
  show b: "builder_at h' x = builder_at h x"
    using same[OF x] by (simp add: builder_at_def)
  then show m: "map_addrs h' x = map_addrs h x" by (simp add: map_addrs_def)
  have e: "entries h' m = entries h m" if "m \<in> set (map_addrs h x)" for m
    using same[of m] ms that by (simp add: entries_def)
  have "entries h' (b_urlValues (builder_at h x)) = entries h (b_urlValues (builder_at h x))"
    and "entries h' (b_header (builder_at h x)) = entries h (b_header (builder_at h x))"
    by (rule e, simp add: map_addrs_def)+
  then show s: "slices h' x = slices h x" by (simp add: slices_def m) (simp add: map_addrs_def)
  then show aa: "array_addrs h' x = array_addrs h x" by (simp add: array_addrs_def)
  have r: "read_slice h' sl = read_slice h sl" if "sl \<in> set (slices h x)" for sl
  proof (cases "0 < s_cap sl")
    case True
    with that have "s_arr sl \<in> set (array_addrs h x)" by (auto simp: array_addrs_def)
    with as same[of "s_arr sl"] show ?thesis by (simp add: read_slice_def array_at_def)
  next
    case False
    with ls that have "s_len sl = 0" by auto
    then show ?thesis by (simp add: read_slice_def)
  qed
  have rm: "read_map h' m = read_map h m" if "m \<in> set (map_addrs h x)" for m
  proof -
    have "set (map snd (entries h m)) \<subseteq> set (slices h x)"
      using that by (auto simp: slices_def)
    then have "map (\<lambda>(key, sl). (key, read_slice h' sl)) (entries h m) =
               map (\<lambda>(key, sl). (key, read_slice h sl)) (entries h m)"
      by (intro map_cong) (auto simp: r)
    then show ?thesis by (simp add: read_map_def e[OF that])
  qed
  show "snapshot h' x = snapshot h x"
    using rm by (simp add: snapshot_def Let_def b map_addrs_def)
  show "allocated h' x"
    using a nx same[OF x] by (auto simp: allocated_def m s aa list_all_iff)
qed

text \<open>
  C4. A chaining method called on the builder \<open>b\<close> returns a builder \<open>b'\<close> that the store
  did not hold before. For every builder \<open>x\<close> of the store, the receiver \<open>b\<close> among them:
  the struct of \<open>x\<close> and all that can be observed of \<open>x\<close> (method, path, headers, query
  and every other field, with the maps read) are after the call what they were before,
  and the maps of \<open>b'\<close> and the backing arrays of their slices are none of the maps and
  arrays of \<open>x\<close>. The witness is \<open>WithHeader("X-Token", "two")\<close> on a builder that holds
  \<open>X-Token: one\<close>: the receiver still holds \<open>one\<close>, the new builder \<open>one, two\<close>.
\<close>

theorem chain_leaves_builders:
  assumes "chain cl b h = (h', b')" and "allocated h b" and "allocated h x"
  shows "next_addr h \<le> b' \<and> b' \<noteq> x \<and> allocated h' b' \<and>
    builder_at h' x = builder_at h x \<and> snapshot h' x = snapshot h x \<and> allocated h' x \<and>
    set (map_addrs h' b') \<inter> set (map_addrs h' x) = {} \<and>
    set (array_addrs h' b') \<inter> set (array_addrs h' x) = {}"
proof -
  from chain_built[of h cl b] assms(1) have bt: "built (next_addr h) h h' b'" by simp
  then have u: "unchanged_below (next_addr h) h h'" and nb: "next_addr h \<le> b'"
    by (simp_all add: built_def)
  note new = built_allocated[OF bt]
  note old = unchanged_allocated[OF u assms(3)]
  from assms(3) have x: "x < next_addr h"
    and ms: "\<forall>m \<in> set (map_addrs h x). m < next_addr h"
    and as: "\<forall>a \<in> set (array_addrs h x). a < next_addr h"
    by (simp_all add: allocated_def list_all_iff)
  have "b' \<noteq> x" using x nb by simp
  moreover have "set (map_addrs h' b') \<inter> set (map_addrs h' x) = {}"
    using new(2) ms by (fastforce simp: old(2))
  moreover have "set (array_addrs h' b') \<inter> set (array_addrs h' x) = {}"
    using new(3) as by (fastforce simp: old(4))
  ultimately show ?thesis using nb new(1) old(1,5,6) by simp
qed

lemma token_allocated: "allocated token_store 2"
  by (simp add: allocated_def token_store_def token_builder_def map_addrs_def slices_def
      array_addrs_def builder_at_def entries_def)

lemma token_copied_query:
  "copy_values store_Values_Add 0 4 (fst (make_map token_store)) = fst (make_map token_store)"
  by (simp add: copy_values_def make_map_def entries_def token_store_def)

lemma token_made_maps: "make_map (fst (make_map token_store)) = (token_made, 5)"
  by (simp add: make_map_def token_store_def token_made_def)

lemma token_made_fields:
  "arrays token_made = [3 \<mapsto> [''one'']]"
  "hmaps token_made = [0 \<mapsto> [], 1 \<mapsto> [(''X-Token'', \<lparr>s_arr = 3, s_len = 1, s_cap = 1\<rparr>)],
              4 \<mapsto> [], 5 \<mapsto> []]"
  "builders token_made = [2 \<mapsto> token_builder]"
  "next_addr token_made = 6"
  "growth token_made c = 2 * c"
  by (simp_all add: token_made_def)

lemma token_copied_value:
  "store_Header_Add 5 ''X-Token'' ''one'' token_made = token_copied"
  by (simp add: store_Header_Add_def X_Token store_Values_Add_def slice_at_def entries_def
     token_made_fields append_def nil_slice_def array_at_def Let_def token_copied_def)
    (simp add: token_made_def)

lemma token_copied_header: "copy_values store_Header_Add 1 5 token_made = token_copied"
  by (simp add: copy_values_def entries_def token_made_fields slice_at_def array_at_def
      token_copied_value)

lemma token_copied_fields:
  "arrays token_copied = [3 \<mapsto> [''one''], 6 \<mapsto> [''one'']]"
  "hmaps token_copied = [0 \<mapsto> [], 1 \<mapsto> [(''X-Token'', \<lparr>s_arr = 3, s_len = 1, s_cap = 1\<rparr>)],
              4 \<mapsto> [], 5 \<mapsto> [(''X-Token'', \<lparr>s_arr = 6, s_len = 1, s_cap = 1\<rparr>)]]"
  "builders token_copied = [2 \<mapsto> token_builder]"
  "next_addr token_copied = 7"
  "growth token_copied c = 2 * c"
  by (simp_all add: token_copied_def)

lemma token_clone: "clone 2 token_store = (token_cloned, 7)"
proof -
  have b0: "builder_at token_store 2 = token_builder"
    by (simp add: builder_at_def token_store_def)
  have m0: "snd (make_map token_store) = 4" by (simp add: make_map_def token_store_def)
  have b1: "builder_at (fst (make_map token_store)) 2 = token_builder"
    by (simp add: builder_at_def make_map_def token_store_def)
  have b2: "builder_at token_made 2 = token_builder"
    by (simp add: builder_at_def token_made_fields)
  have b3: "builder_at token_copied 2 = token_builder"
    by (simp add: builder_at_def token_copied_fields)
  have u: "b_urlValues token_builder = 0" and hd: "b_header token_builder = 1"
    by (simp_all add: token_builder_def)
  have n: "new_builder (token_builder\<lparr>b_urlValues := 4, b_header := 5\<rparr>) token_copied
      = (token_cloned, 7)"
    by (simp add: new_builder_def token_copied_def token_cloned_def)
  have r: "\<lparr>b_path = b_path token_builder, b_method = b_method token_builder,
         b_baseURL = b_baseURL token_builder, b_codec = b_codec token_builder,
         b_resp = b_resp token_builder, b_req = b_req token_builder, b_urlValues = 4,
         b_header = 5, b_expectedStatusCodes = b_expectedStatusCodes token_builder,
         b_loggingReq = b_loggingReq token_builder, b_loggingResp = b_loggingResp token_builder,
         b_timeout = b_timeout token_builder, b_tracing = b_tracing token_builder,
         b_contentType = b_contentType token_builder, b_insecure = b_insecure token_builder,
         b_transport = b_transport token_builder, b_err = b_err token_builder\<rparr>
      = token_builder\<lparr>b_urlValues := 4, b_header := 5\<rparr>"
    by (simp add: token_builder_def)
  show ?thesis
    unfolding clone_def Let_def b0 m0 u token_copied_query b1 token_made_maps fst_conv snd_conv
      hd token_copied_header b3 r n ..
qed

lemma token_cloned_fields:
  "arrays token_cloned = [3 \<mapsto> [''one''], 6 \<mapsto> [''one'']]"
  "hmaps token_cloned = [0 \<mapsto> [], 1 \<mapsto> [(''X-Token'', \<lparr>s_arr = 3, s_len = 1, s_cap = 1\<rparr>)],
              4 \<mapsto> [], 5 \<mapsto> [(''X-Token'', \<lparr>s_arr = 6, s_len = 1, s_cap = 1\<rparr>)]]"
  "builders token_cloned = [2 \<mapsto> token_builder, 7 \<mapsto> token_builder\<lparr>b_urlValues := 4, b_header := 5\<rparr>]"
  "next_addr token_cloned = 8"
  "growth token_cloned c = 2 * c"
  by (simp_all add: token_cloned_def)

lemma token_added: "store_Header_Add 5 ''X-Token'' ''two'' token_cloned = token_after"
  by (simp add: store_Header_Add_def X_Token store_Values_Add_def slice_at_def entries_def
     token_cloned_fields append_def nil_slice_def array_at_def Let_def token_after_def)
    (simp add: token_cloned_def numeral_2_eq_2)

lemma token_chain: "chain (Call_WithHeader ''X-Token'' ''two'') 2 token_store = (token_after, 7)"
proof -
  have b: "builder_at token_cloned 7 = token_builder\<lparr>b_urlValues := 4, b_header := 5\<rparr>"
    by (simp add: builder_at_def token_cloned_fields)
  have e: "b_err (token_builder\<lparr>b_urlValues := 4, b_header := 5\<rparr>) = None"
    "b_header (token_builder\<lparr>b_urlValues := 4, b_header := 5\<rparr>) = 5"
    by (simp_all add: token_builder_def)
  show ?thesis
    by (simp add: builder_WithHeader_def chained_def token_clone b e token_added)
qed

theorem chain_leaves_builders_witness:
  "allocated token_store 2 \<and>
   chain (Call_WithHeader ''X-Token'' ''two'') 2 token_store = (token_after, 7) \<and>
   b_header (snapshot token_store 2) = [(''X-Token'', [''one''])] \<and>
   b_header (snapshot token_after 2) = [(''X-Token'', [''one''])] \<and>
   b_header (snapshot token_after 7) = [(''X-Token'', [''one'', ''two''])] \<and>
   map_addrs token_after 2 = [0, 1] \<and> map_addrs token_after 7 = [4, 5] \<and>
   array_addrs token_after 2 = [3] \<and> array_addrs token_after 7 = [8]"
proof -
  have before: "b_header (snapshot token_store 2) = [(''X-Token'', [''one''])]"
    by (simp add: snapshot_def token_store_def token_builder_def builder_at_def read_map_def
      entries_def read_slice_def array_at_def)
  have new: "b_header (snapshot token_after 7) = [(''X-Token'', [''one'', ''two''])]"
    by (simp add: snapshot_def token_after_def token_builder_def builder_at_def read_map_def
      entries_def read_slice_def array_at_def)
  have addrs: "map_addrs token_after 2 = [0, 1]" "map_addrs token_after 7 = [4, 5]"
    "array_addrs token_after 2 = [3]" "array_addrs token_after 7 = [8]"
    by (simp_all add: map_addrs_def array_addrs_def slices_def entries_def builder_at_def
        token_after_def token_builder_def)
  from chain_leaves_builders[OF token_chain token_allocated token_allocated]
    token_allocated token_chain before new addrs
  show ?thesis by simp
qed

end
